theory Spec2Isabelle
  imports Main
begin

section \<open>Go values and the fragment of package reflect used by goldi\<close>

text \<open>
  goldi is written against Go's \<^verbatim>\<open>interface{}\<close> and package \<^verbatim>\<open>reflect\<close>.  The
  development fixes a universe of Go types and of dynamic values, and the operations of
  \<^verbatim>\<open>reflect\<close> that the source calls, with their panics written out as results.
\<close>

datatype kind =
    KInvalid | KBool | KInt | KString | KChan | KFunc | KInterface
  | KPtr | KSlice | KStruct | KUnsafePointer

text \<open>
  A struct type is a defined type \<^verbatim>\<open>type name struct { ... }\<close>: it carries its name and
  its fields in declaration order (struct types without a name are not part of the
  universe).  A function type carries the types of its parameters but the variadic one,
  the element type of the variadic parameter if the function is variadic, and its
  result types.  An interface type carries its name and the names of its methods.
  \<open>TDefinedString name\<close> is a defined type \<^verbatim>\<open>type name string\<close>: its kind is
  \<^verbatim>\<open>String\<close>, and it is not the type \<^verbatim>\<open>string\<close>.
\<close>

datatype gotype =
    TBool | TInt | TString | TUnsafePointer
  | TChan gotype
  | TPtr gotype
  | TSlice gotype
  | TStruct string "(string \<times> gotype) list"
  | TFunc "gotype list" "gotype option" "gotype list"
  | TInterface string "string list"
  | TDefinedString string

text \<open>
  An address: a cell of the heap, or the one address \<^verbatim>\<open>runtime.zerobase\<close> that the
  allocator returns for every object of size zero.
\<close>

datatype addr = ZeroBase | Addr nat

text \<open>
  A dynamic value, as held by an \<^verbatim>\<open>interface{}\<close>.  \<open>VNil\<close> is the nil interface.
  Pointers, channels, slices and function values remember their type; a pointer holds an
  address or is nil; a function value holds the components of its function type, the
  identifier of its code and the arguments already bound to it (the receiver of a method
  value).  \<open>VDefinedString name str\<close> is the string \<open>str\<close> as a value of the defined type
  \<open>name\<close>.
\<close>

datatype val =
    VNil
  | VBool bool
  | VInt int
  | VString string
  | VUnsafePointer nat
  | VChan gotype "nat option"
  | VPtr gotype "addr option"
  | VSlice gotype "val list option"
  | VStruct string "(string \<times> gotype) list" "val list"
  | VFunc "gotype list" "gotype option" "gotype list" string "val list"
  | VNilFunc "gotype list" "gotype option" "gotype list"
  | VDefinedString string string

text \<open>\<^verbatim>\<open>reflect.Value\<close>: the zero Value, or a value together with its static type.\<close>

datatype Value = Value_zero | Value gotype val

fun Kind :: "gotype \<Rightarrow> kind" where
  "Kind TBool = KBool"
| "Kind TInt = KInt"
| "Kind TString = KString"
| "Kind TUnsafePointer = KUnsafePointer"
| "Kind (TChan _) = KChan"
| "Kind (TPtr _) = KPtr"
| "Kind (TSlice _) = KSlice"
| "Kind (TStruct _ _) = KStruct"
| "Kind (TFunc _ _ _) = KFunc"
| "Kind (TInterface _ _) = KInterface"
| "Kind (TDefinedString _) = KString"

text \<open>\<^verbatim>\<open>reflect.TypeOf\<close>: \<open>None\<close> is the nil \<^verbatim>\<open>reflect.Type\<close> of the nil interface.\<close>

fun TypeOf :: "val \<Rightarrow> gotype option" where
  "TypeOf VNil = None"
| "TypeOf (VBool _) = Some TBool"
| "TypeOf (VInt _) = Some TInt"
| "TypeOf (VString _) = Some TString"
| "TypeOf (VUnsafePointer _) = Some TUnsafePointer"
| "TypeOf (VChan t _) = Some (TChan t)"
| "TypeOf (VPtr t _) = Some (TPtr t)"
| "TypeOf (VSlice t _) = Some (TSlice t)"
| "TypeOf (VStruct n fs _) = Some (TStruct n fs)"
| "TypeOf (VFunc ps variadic outs _ _) = Some (TFunc ps variadic outs)"
| "TypeOf (VNilFunc ps variadic outs) = Some (TFunc ps variadic outs)"
| "TypeOf (VDefinedString name _) = Some (TDefinedString name)"

text \<open>\<^verbatim>\<open>reflect.ValueOf\<close>: the zero Value for the nil interface.\<close>

definition ValueOf :: "val \<Rightarrow> Value" where
  "ValueOf x = (case TypeOf x of None \<Rightarrow> Value_zero | Some t \<Rightarrow> Value t x)"

fun Value_Kind :: "Value \<Rightarrow> kind" where
  "Value_Kind Value_zero = KInvalid"
| "Value_Kind (Value t _) = Kind t"

fun IsValid_Value :: "Value \<Rightarrow> bool" where
  "IsValid_Value Value_zero = False"
| "IsValid_Value (Value _ _) = True"

text \<open>The zero value of a type (\<^verbatim>\<open>reflect.Zero\<close>, and what \<^verbatim>\<open>reflect.New\<close> points to).\<close>

fun zero_val :: "gotype \<Rightarrow> val" where
  "zero_val TBool = VBool False"
| "zero_val TInt = VInt 0"
| "zero_val TString = VString []"
| "zero_val TUnsafePointer = VUnsafePointer 0"
| "zero_val (TChan t) = VChan t None"
| "zero_val (TPtr t) = VPtr t None"
| "zero_val (TSlice t) = VSlice t None"
| "zero_val (TStruct n fs) = VStruct n fs (map (\<lambda>f. zero_val (snd f)) fs)"
| "zero_val (TFunc ps variadic outs) = VNilFunc ps variadic outs"
| "zero_val (TInterface _ _) = VNil"
| "zero_val (TDefinedString name) = VDefinedString name []"

text \<open>
  A type of size zero: in this universe, a struct type all of whose fields have size
  zero.
\<close>

fun zero_size :: "gotype \<Rightarrow> bool" where
  "zero_size (TStruct _ fs) = list_all (\<lambda>f. zero_size (snd f)) fs"
| "zero_size _ = False"

definition Zero :: "gotype \<Rightarrow> Value" where
  "Zero t = Value t (zero_val t)"


subsection \<open>Errors, panics and results\<close>

text \<open>
  A Go \<^verbatim>\<open>error\<close> built by \<^verbatim>\<open>fmt.Errorf\<close> is kept as its format string and its
  arguments, not rendered.  \<open>S\<close> is a string argument, \<open>D\<close> a number, \<open>T\<close> a value
  printed with \<^verbatim>\<open>%T\<close>, \<open>Ty\<close> and \<open>Tys\<close> types, \<open>K\<close> a kind, \<open>Fn\<close> the runtime name
  of a function value and \<open>Er\<close> an error printed with \<^verbatim>\<open>%s\<close>.

  Modelled from the spec: the constructors \<^verbatim>\<open>newUnknownTypeReferenceError\<close> and
  \<^verbatim>\<open>newTypeReferenceError\<close> are not part of the available source; the error values
  carry the referenced type ID (and the offending instance), which the available source
  reads back as \<^verbatim>\<open>TypeID\<close> and \<^verbatim>\<open>TypeInstance\<close>, and the message they were given.
\<close>

datatype fmtarg = S string | D nat | T val | Ty gotype | Tys "gotype list" | K kind
  | Fn Value | Er err
and err =
    Errorf string "fmtarg list"
  | UnknownTypeReferenceError string string "fmtarg list"
  | TypeReferenceError string val string "fmtarg list"

definition newUnknownTypeReferenceError :: "string \<Rightarrow> string \<Rightarrow> fmtarg list \<Rightarrow> err" where
  "newUnknownTypeReferenceError typeID message args = UnknownTypeReferenceError typeID message args"

definition newTypeReferenceError :: "string \<Rightarrow> val \<Rightarrow> string \<Rightarrow> fmtarg list \<Rightarrow> err" where
  "newTypeReferenceError typeID typeInstance message args =
     TypeReferenceError typeID typeInstance message args"

text \<open>
  A call ends with a returned error (\<open>Failed\<close>), with a panic, or, in a function
  defined with fuel, by running out of fuel, which stands for a call that does not
  return.
\<close>

datatype failure = Failed err | Panicked string | OutOfFuel

type_synonym 'a res = "failure + 'a"

subsection \<open>The environment: code of functions, method sets and tables\<close>

text \<open>
  \<open>call_func\<close> gives the results of the code named by a function value on a list of
  argument values; \<open>Methods\<close> gives the exported methods of a type: name, components
  of the function type of the method value, and identifier of its code.  Two tables of
  the Go distribution are parameters as well: \<open>Type_String\<close> is \<^verbatim>\<open>Type.String()\<close>, which
  can give the same string for different types, and \<open>unicode_IsUpper\<close> says, for a name
  that begins with a byte outside ASCII, whether its first rune is an upper-case letter
  (\<^verbatim>\<open>unicode.IsUpper\<close>).
\<close>

record env =
  call_func :: "string \<Rightarrow> val list \<Rightarrow> val list"
  Methods ::
    "gotype \<Rightarrow> (string \<times> (gotype list \<times> gotype option \<times> gotype list) \<times> string) list"
  Type_String :: "gotype \<Rightarrow> string"
  unicode_IsUpper :: "string \<Rightarrow> bool"

definition method_names :: "env \<Rightarrow> gotype \<Rightarrow> string list" where
  "method_names E t = (case t of TInterface _ ms \<Rightarrow> ms | _ \<Rightarrow> map fst (Methods E t))"

text \<open>
  \<^verbatim>\<open>Type.AssignableTo\<close>: the types are identical, or the target is an interface type
  that the source type implements.  The rule for types with identical underlying types
  adds nothing here: the pointer, channel, slice and function types are not defined
  types, and every other type of the universe is one.
\<close>

definition AssignableTo :: "env \<Rightarrow> gotype \<Rightarrow> gotype \<Rightarrow> bool" where
  "AssignableTo E t u =
     (t = u \<or>
      (case u of TInterface _ ms \<Rightarrow> list_all (\<lambda>m. m \<in> set (method_names E t)) ms
       | _ \<Rightarrow> False))"

text \<open>\<^verbatim>\<open>Value.Interface\<close> panics on the zero Value.\<close>

fun Value_Interface :: "Value \<Rightarrow> val res" where
  "Value_Interface Value_zero =
     Inl (Panicked ''reflect: call of reflect.Value.Interface on zero Value'')"
| "Value_Interface (Value _ v) = Inr v"

text \<open>
  \<^verbatim>\<open>p.Set(x)\<close> for a settable \<open>p\<close> of type \<open>t\<close>: the value stored.  \<^verbatim>\<open>Set\<close> panics on
  the zero Value and on a value whose type is not assignable to \<open>t\<close>.
\<close>

fun Set_val :: "env \<Rightarrow> gotype \<Rightarrow> Value \<Rightarrow> val res" where
  "Set_val E t Value_zero = Inl (Panicked ''reflect: call of reflect.Value.Set on zero Value'')"
| "Set_val E t (Value u v) =
     (if AssignableTo E u t then Inr v
      else Inl (Panicked ''reflect.Set: value is not assignable to type''))"

text \<open>\<^verbatim>\<open>p = reflect.New(t).Elem(); p.Set(x)\<close>: the result has static type \<open>t\<close>.\<close>

definition New_Elem_Set :: "env \<Rightarrow> gotype \<Rightarrow> Value \<Rightarrow> Value res" where
  "New_Elem_Set E t x = (case Set_val E t x of Inl p \<Rightarrow> Inl p | Inr v \<Rightarrow> Inr (Value t v))"

text \<open>\<^verbatim>\<open>Value.MethodByName\<close>: the zero Value when the type has no such exported method.\<close>

fun MethodByName :: "env \<Rightarrow> Value \<Rightarrow> string \<Rightarrow> Value res" where
  "MethodByName E Value_zero name =
     Inl (Panicked ''reflect: call of reflect.Value.MethodByName on zero Value'')"
| "MethodByName E (Value t v) name =
     (case map_of (Methods E t) name of
        None \<Rightarrow> Inr Value_zero
      | Some ((ps, variadic, outs), code) \<Rightarrow>
          Inr (Value (TFunc ps variadic outs) (VFunc ps variadic outs code [v])))"

text \<open>
  The accessors of a function type: \<^verbatim>\<open>In(0) .. In(NumIn() - 1)\<close> as a list, the last
  one being the slice type of the variadic parameter.
\<close>

definition In_types :: "gotype list \<Rightarrow> gotype option \<Rightarrow> gotype list" where
  "In_types ps variadic = ps @ (case variadic of None \<Rightarrow> [] | Some e \<Rightarrow> [TSlice e])"

definition In :: "gotype list \<Rightarrow> gotype option \<Rightarrow> nat \<Rightarrow> gotype res" where
  "In ps variadic i =
     (if i < length (In_types ps variadic) then Inr (In_types ps variadic ! i)
      else Inl (Panicked ''reflect: Func index out of bounds''))"

text \<open>
  The checks \<^verbatim>\<open>Value.Call\<close> and \<^verbatim>\<open>Value.CallSlice\<close> make on each argument: it is
  not the zero Value and its type is assignable to the parameter type.
\<close>

fun call_arg_ok :: "env \<Rightarrow> Value \<times> gotype \<Rightarrow> bool" where
  "call_arg_ok E (Value_zero, t) = False"
| "call_arg_ok E (Value u v, t) = AssignableTo E u t"

fun arg_val :: "Value \<Rightarrow> val" where
  "arg_val Value_zero = VNil"
| "arg_val (Value _ v) = v"

definition results :: "gotype list \<Rightarrow> val list \<Rightarrow> Value list" where
  "results outs rs = map (\<lambda>(t, r). Value t r) (zip outs rs)"

text \<open>
  \<^verbatim>\<open>f.Call(in)\<close>.  For a variadic function the trailing arguments are packed into a
  slice.  The results carry the declared result types.
\<close>

definition Value_Call :: "env \<Rightarrow> Value \<Rightarrow> Value list \<Rightarrow> Value list res" where
  "Value_Call E f ins =
     (case f of
        Value (TFunc ps variadic outs) (VFunc _ _ _ code bound) \<Rightarrow>
          (case variadic of
             Some elem \<Rightarrow>
               if length ins < length ps then
                 Inl (Panicked ''reflect: Call with too few input arguments'')
               else if \<not> list_all (call_arg_ok E) (zip (take (length ps) ins) ps) then
                 Inl (Panicked ''reflect: Call using value as wrong type'')
               else if \<not> list_all (\<lambda>x. call_arg_ok E (x, elem)) (drop (length ps) ins) then
                 Inl (Panicked ''reflect: cannot use value as variadic argument'')
               else
                 Inr (results outs (call_func E code
                   (bound @ map arg_val (take (length ps) ins) @
                     [VSlice elem (Some (map arg_val (drop (length ps) ins)))])))
           | None \<Rightarrow>
               if length ins < length ps then
                 Inl (Panicked ''reflect: Call with too few input arguments'')
               else if length ins > length ps then
                 Inl (Panicked ''reflect: Call with too many input arguments'')
               else if \<not> list_all (call_arg_ok E) (zip ins ps) then
                 Inl (Panicked ''reflect: Call using value as wrong type'')
               else
                 Inr (results outs (call_func E code (bound @ map arg_val ins))))
      | Value (TFunc _ _ _) _ \<Rightarrow> Inl (Panicked ''reflect: call of nil function'')
      | _ \<Rightarrow> Inl (Panicked ''reflect: call of reflect.Value.Call on non-function Value''))"

text \<open>\<^verbatim>\<open>f.CallSlice(in)\<close>: the last argument is already the variadic slice.\<close>

definition Value_CallSlice :: "env \<Rightarrow> Value \<Rightarrow> Value list \<Rightarrow> Value list res" where
  "Value_CallSlice E f ins =
     (case f of
        Value (TFunc ps variadic outs) (VFunc _ _ _ code bound) \<Rightarrow>
          if variadic = None then
            Inl (Panicked ''reflect: CallSlice of non-variadic function'')
          else if length ins < length (In_types ps variadic) then
            Inl (Panicked ''reflect: CallSlice with too few input arguments'')
          else if length ins > length (In_types ps variadic) then
            Inl (Panicked ''reflect: CallSlice with too many input arguments'')
          else if \<not> list_all (call_arg_ok E) (zip ins (In_types ps variadic)) then
            Inl (Panicked ''reflect: CallSlice using value as wrong type'')
          else
            Inr (results outs (call_func E code (bound @ map arg_val ins)))
      | Value (TFunc _ _ _) _ \<Rightarrow> Inl (Panicked ''reflect: call of nil function'')
      | _ \<Rightarrow> Inl (Panicked ''reflect: call of reflect.Value.CallSlice on non-function Value''))"

section \<open>Placeholders and type IDs\<close>

text \<open>
  Modelled from the spec: \<^verbatim>\<open>IsParameter\<close>, \<^verbatim>\<open>IsTypeReference\<close> and
  \<^verbatim>\<open>IsParameterOrTypeReference\<close> are not part of the available source.  The wire format
  is: a parameter placeholder is \<^verbatim>\<open>%name%\<close>; a type reference is \<^verbatim>\<open>@id\<close>, \<^verbatim>\<open>@?id\<close>
  or \<^verbatim>\<open>@id::Method\<close>.
\<close>

definition IsParameter :: "string \<Rightarrow> bool" where
  "IsParameter p = (2 \<le> length p \<and> hd p = CHR ''%'' \<and> last p = CHR ''%'')"

definition IsTypeReference :: "string \<Rightarrow> bool" where
  "IsTypeReference p = (2 \<le> length p \<and> hd p = CHR ''@'')"

definition IsParameterOrTypeReference :: "string \<Rightarrow> bool" where
  "IsParameterOrTypeReference p = (IsParameter p \<or> IsTypeReference p)"

text \<open>\<^verbatim>\<open>strings.Index(s, "::")\<close>, with \<open>None\<close> for \<^verbatim>\<open>-1\<close>.\<close>

fun index_colons :: "string \<Rightarrow> nat option" where
  "index_colons (c # d # r) =
     (if c = CHR '':'' \<and> d = CHR '':'' then Some 0
      else map_option Suc (index_colons (d # r)))"
| "index_colons _ = None"

text \<open>
  Modelled from the spec: \<^verbatim>\<open>NewTypeID\<close> is not part of the available source.  A type ID
  is a string key, optionally carrying a leading marker for "optional" and a trailing
  member selector; the reference marker \<^verbatim>\<open>@\<close> in front is dropped when present.  \<open>Raw\<close>
  is the string as given.
\<close>

record TypeID =
  ID :: string
  Raw :: string
  FuncReferenceMethod :: string
  IsOptional :: bool
  IsFuncReference :: bool

definition NewTypeID :: "string \<Rightarrow> TypeID" where
  "NewTypeID s =
     (let a = (if s \<noteq> [] \<and> hd s = CHR ''@'' then tl s else s);
          opt = (a \<noteq> [] \<and> hd a = CHR ''?'');
          b = (if opt then tl a else a)
      in case index_colons b of
           None \<Rightarrow> \<lparr>ID = b, Raw = s, FuncReferenceMethod = [], IsOptional = opt,
                     IsFuncReference = False\<rparr>
         | Some i \<Rightarrow> \<lparr>ID = take i b, Raw = s, FuncReferenceMethod = drop (i + 2) b,
                      IsOptional = opt, IsFuncReference = True\<rparr>)"


section \<open>Type factories\<close>

text \<open>
  The factory built by \<^verbatim>\<open>NewType\<close> (type.go) and the one built by \<^verbatim>\<open>NewStructType\<close>.
\<close>

record typeFactory =
  factory :: Value
  factoryType :: gotype
  factoryArguments :: "Value list"

record structType =
  structType :: gotype
  structFields :: "Value list"

text \<open>
  The implementations of the interface \<^verbatim>\<open>TypeFactory\<close>.

  Modelled from the spec: the invalid type (\<^verbatim>\<open>newInvalidType\<close>, \<^verbatim>\<open>IsValid\<close>) and the
  instance type are not part of the available source.  An invalid construction attempt
  is captured as a descriptor that carries the diagnostic and always fails when
  generated; the instance factory wraps a value, has no arguments and always returns the
  stored value.  The proxy and the function-reference factories are left out.
\<close>

datatype TypeFactory =
    Func_type typeFactory
  | Struct_type structType
  | Invalid_type err
  | Instance_type val

definition newInvalidType :: "err \<Rightarrow> TypeFactory" where
  "newInvalidType e = Invalid_type e"

fun IsValid :: "TypeFactory \<Rightarrow> bool" where
  "IsValid (Invalid_type _) = False"
| "IsValid _ = True"

subsection \<open>type.go: NewType\<close>

text \<open>
  The loop of \<^verbatim>\<open>buildFactoryCallArguments\<close> from index \<open>i\<close> on.  A returned error is
  \<open>Failed\<close>.
\<close>

fun buildFactoryCallArguments_from ::
  "gotype list \<Rightarrow> gotype option \<Rightarrow> nat \<Rightarrow> val list \<Rightarrow> Value list res" where
  "buildFactoryCallArguments_from ps variadic i [] = Inr []"
| "buildFactoryCallArguments_from ps variadic i (argument # rest) =
     (let actualNumberOfArgs = length (In_types ps variadic) in
      case (case variadic of
              Some elem \<Rightarrow> if i \<ge> actualNumberOfArgs - 1 then Inr elem else In ps variadic i
            | None \<Rightarrow> In ps variadic i) of
        Inl p \<Rightarrow> Inl p
      | Inr expectedArgumentType \<Rightarrow>
          if Value_Kind (ValueOf argument) \<noteq> Kind expectedArgumentType \<and>
             (case argument of VString stringArg \<Rightarrow> \<not> IsParameterOrTypeReference stringArg
              | _ \<Rightarrow> False)
          then Inl (Failed (Errorf ''input argument %d is of type %s but needs to be a %s''
                 [D (i + 1), K (Value_Kind (ValueOf argument)), K (Kind expectedArgumentType)]))
          else
            (case buildFactoryCallArguments_from ps variadic (i + 1) rest of
               Inl p \<Rightarrow> Inl p
             | Inr args \<Rightarrow> Inr (ValueOf argument # args)))"

definition buildFactoryCallArguments ::
  "gotype list \<Rightarrow> gotype option \<Rightarrow> val list \<Rightarrow> Value list res" where
  "buildFactoryCallArguments ps variadic allParameters =
     buildFactoryCallArguments_from ps variadic 0 allParameters"

text \<open>
  \<^verbatim>\<open>newTypeFromFactoryFunction\<close>.  Its only call passes a type of kind \<^verbatim>\<open>Func\<close>; the
  components \<open>ps\<close>, \<open>variadic\<close>, \<open>outs\<close> of that function type are the arguments here.
\<close>

definition newTypeFromFactoryFunction ::
  "val \<Rightarrow> gotype list \<Rightarrow> gotype option \<Rightarrow> gotype list \<Rightarrow> val list \<Rightarrow> TypeFactory res" where
  "newTypeFromFactoryFunction function ps variadic outs parameters =
     (if length outs \<noteq> 1 then
        Inr (newInvalidType (Errorf ''invalid number of return parameters: %d'' [D (length outs)]))
      else if Kind (outs ! 0) = KChan \<or> Kind (outs ! 0) = KUnsafePointer then
        Inr (newInvalidType
          (Errorf ''return parameter type %v is not supported for dependency injection''
             [K (Kind (outs ! 0))]))
      else if variadic \<noteq> None \<and> length (In_types ps variadic) > length parameters then
        Inr (newInvalidType
          (Errorf ''invalid number of input parameters for variadic function: got %d but expected at least %d''
             [D (length parameters), D (length (In_types ps variadic))]))
      else if variadic = None \<and> length (In_types ps variadic) \<noteq> length parameters then
        Inr (newInvalidType
          (Errorf ''invalid number of input parameters: got %d but expected %d''
             [D (length parameters), D (length (In_types ps variadic))]))
      else
        (case buildFactoryCallArguments ps variadic parameters of
           Inl (Failed e) \<Rightarrow> Inr (newInvalidType e)
         | Inl p \<Rightarrow> Inl p
         | Inr args \<Rightarrow>
             Inr (Func_type \<lparr>factory = ValueOf function, factoryType = TFunc ps variadic outs,
                              factoryArguments = args\<rparr>)))"

definition NewType :: "val \<Rightarrow> val list \<Rightarrow> TypeFactory res" where
  "NewType factoryFunction factoryParameters =
     (case TypeOf factoryFunction of
        None \<Rightarrow> Inr (newInvalidType (Errorf ''the given factoryFunction is nil'' []))
      | Some (TFunc ps variadic outs) \<Rightarrow>
          newTypeFromFactoryFunction factoryFunction ps variadic outs factoryParameters
      | Some factoryType' \<Rightarrow>
          Inr (newInvalidType
            (Errorf ''the given factoryFunction must be a function (given %q)''
               [K (Kind factoryType')])))"


subsection \<open>NewStructType\<close>

definition newTypeFromStruct :: "gotype \<Rightarrow> val list \<Rightarrow> TypeFactory res" where
  "newTypeFromStruct generatedType parameters =
     (case generatedType of
        TStruct name fs \<Rightarrow>
          if length fs < length parameters then
            Inr (newInvalidType
              (Errorf ''the struct %s has only %d fields but %d arguments where provided''
                 [S name, D (length fs), D (length parameters)]))
          else
            Inr (Struct_type \<lparr>structType = generatedType,
                              structFields = map ValueOf parameters\<rparr>)
      | _ \<Rightarrow> Inl (Panicked ''reflect: NumField of non-struct type''))"

definition NewStructType :: "val \<Rightarrow> val list \<Rightarrow> TypeFactory res" where
  "NewStructType structT structParameters =
     (case TypeOf structT of
        None \<Rightarrow> Inr (newInvalidType (Errorf ''the given struct is nil'' []))
      | Some t0 \<Rightarrow>
          (let structType' = (case t0 of TPtr e \<Rightarrow> e | _ \<Rightarrow> t0) in
           if Kind structType' = KStruct then newTypeFromStruct structType' structParameters
           else Inr (newInvalidType
             (Errorf ''the given type must either be a struct or a pointer to a struct (given %T)''
                [T structT]))))"



section \<open>The container and the parameter resolver\<close>

text \<open>
  The registry is the Go map \<^verbatim>\<open>TypeRegistry\<close>, kept as an association list so that an
  iteration over it has an order; a lookup is \<open>map_of\<close>.  The mutable part of a
  container, its \<^verbatim>\<open>typeCache\<close>, lives in the state, next to the \<^verbatim>\<open>typeCache\<close> of the
  process-wide \<^verbatim>\<open>globalReflectionCache\<close> (here \<open>reflectionCache\<close>) and the heap of the
  structs allocated with \<^verbatim>\<open>reflect.New\<close>.
\<close>

record Container =
  TypeRegistry :: "(string \<times> TypeFactory) list"
  Config :: "string \<rightharpoonup> val"

record state =
  typeCache :: "string \<rightharpoonup> val"
  reflectionCache :: "string \<rightharpoonup> gotype"
  heap :: "val list"

definition NewContainer :: "(string \<times> TypeFactory) list \<Rightarrow> (string \<rightharpoonup> val) \<Rightarrow> Container" where
  "NewContainer registry config = \<lparr>TypeRegistry = registry, Config = config\<rparr>"

text \<open>\<^verbatim>\<open>TypeRegistry.Register\<close>: the last registration of an ID wins.\<close>

definition Register ::
  "(string \<times> TypeFactory) list \<Rightarrow> string \<Rightarrow> TypeFactory \<Rightarrow> (string \<times> TypeFactory) list" where
  "Register r typeID typeDef = (typeID, typeDef) # filter (\<lambda>e. fst e \<noteq> typeID) r"

text \<open>
  \<^verbatim>\<open>Container.get\<close> and the resolver call each other.  The functions of the resolver
  and of the factories take the container's \<open>get\<close> as the argument \<open>getf\<close>.
\<close>

type_synonym getter = "string \<Rightarrow> state \<Rightarrow> (val \<times> bool) res \<times> state"

subsection \<open>reflection\_cache.go\<close>

text \<open>
  \<^verbatim>\<open>ReflectionCache.GetType\<close> on the global cache.  The key is the string of the type of
  the object; a call on the nil interface panics in \<^verbatim>\<open>getTypeKey\<close>.  When the key is in
  the cache the cached type is returned, which is the type of the object that was looked
  up first under this string.  \<^verbatim>\<open>GetValue\<close> is \<^verbatim>\<open>reflect.ValueOf\<close>.
\<close>

definition GetType :: "env \<Rightarrow> val \<Rightarrow> state \<Rightarrow> gotype res \<times> state" where
  "GetType E obj s =
     (case TypeOf obj of
        None \<Rightarrow> (Inl (Panicked ''invalid memory address or nil pointer dereference''), s)
      | Some reflectType \<Rightarrow>
          (let typeKey = Type_String E reflectType in
           case reflectionCache s typeKey of
             Some cached \<Rightarrow> (Inr cached, s)
           | None \<Rightarrow>
               (Inr reflectType,
                s\<lparr>reflectionCache := (reflectionCache s)(typeKey \<mapsto> reflectType)\<rparr>)))"

subsection \<open>parameter\_resolver.go\<close>

definition resolveParameter ::
  "env \<Rightarrow> Container \<Rightarrow> Value \<Rightarrow> string \<Rightarrow> gotype \<Rightarrow> Value res" where
  "resolveParameter E c parameter stringParameter expectedType =
     (if length stringParameter < 2 then Inl (Panicked ''slice bounds out of range'')
      else
        let parameterName = take (length stringParameter - 2) (drop 1 stringParameter) in
        case Config c parameterName of
          None \<Rightarrow> Inr parameter
        | Some configuredValue \<Rightarrow> New_Elem_Set E expectedType (ValueOf configuredValue))"

definition resolveTypeReference ::
  "env \<Rightarrow> getter \<Rightarrow> string \<Rightarrow> gotype \<Rightarrow> state \<Rightarrow> Value res \<times> state" where
  \<open>resolveTypeReference E getf typeIDAndPrefix expectedType s =
     (let t = NewTypeID typeIDAndPrefix in
      case getf (ID t) s of
        (Inl f, s') \<Rightarrow> (Inl f, s')
      | (Inr (typeInstance, typeDefined), s') \<Rightarrow>
          if \<not> typeDefined then
            (if IsOptional t then (Inr (Zero expectedType), s')
             else (Inl (Failed (newUnknownTypeReferenceError (ID t)
                     ''the referenced type "@%s" has not been defined'' [S (ID t)])), s'))
          else if IsFuncReference t then
            (case MethodByName E (ValueOf typeInstance) (FuncReferenceMethod t) of
               Inl p \<Rightarrow> (Inl p, s')
             | Inr method \<Rightarrow>
                 if \<not> IsValid_Value method then
                   (Inl (Failed (newTypeReferenceError (ID t) typeInstance
                      ''the referenced method %q does not exist or is not exported''
                      [S (Raw t)])), s')
                 else (Inr method, s'))
          else
            (case GetType E typeInstance s' of
               (Inl p, s'') \<Rightarrow> (Inl p, s'')
             | (Inr instanceType, s'') \<Rightarrow>
                 if \<not> AssignableTo E instanceType expectedType then
                   (Inl (Failed (newTypeReferenceError (ID t) typeInstance
                      ''the referenced type %q (type %T) is not assignable to the expected type %v''
                      [S (Raw t), T typeInstance, Ty expectedType])), s'')
                 else (New_Elem_Set E expectedType (ValueOf typeInstance), s'')))\<close>

definition Resolve ::
  "env \<Rightarrow> Container \<Rightarrow> getter \<Rightarrow> Value \<Rightarrow> gotype \<Rightarrow> state \<Rightarrow> Value res \<times> state" where
  "Resolve E c getf parameter expectedType s =
     (if Value_Kind parameter \<noteq> KString then (Inr parameter, s)
      else
        (case arg_val parameter of
           VString stringParameter \<Rightarrow>
             if \<not> IsParameterOrTypeReference stringParameter then (Inr parameter, s)
             else if IsTypeReference stringParameter then
               resolveTypeReference E getf stringParameter expectedType s
             else (resolveParameter E c parameter stringParameter expectedType, s)
         | _ \<Rightarrow> (Inl (Panicked ''interface conversion: interface {} is not string''), s)))"

subsection \<open>type.go: Generate\<close>

text \<open>
  \<^verbatim>\<open>Value.Pointer\<close>, called by \<^verbatim>\<open>invalidReferencedTypeErr\<close> on the factory, panics on
  the kinds that have no pointer.
\<close>

definition typeFactory_invalidReferencedTypeErr ::
  "typeFactory \<Rightarrow> gotype list \<Rightarrow> gotype option \<Rightarrow> string \<Rightarrow> val \<Rightarrow> nat \<Rightarrow> failure" where
  \<open>typeFactory_invalidReferencedTypeErr t ps variadic typeID typeInstance i =
     (if Value_Kind (factory t) \<in> {KChan, KFunc, KPtr, KSlice, KString, KUnsafePointer} then
        Failed (Errorf
          ''the referenced type "@%s" (type %T) can not be passed as argument %d to the function signature %s(%s)''
          [S typeID, T typeInstance, D (i + 1), Fn (factory t), Tys (In_types ps variadic)])
      else Panicked ''reflect: call of reflect.Value.Pointer on wrong kind of Value'')\<close>

text \<open>
  The loop of \<^verbatim>\<open>generateFactoryArguments\<close>, which is also the first loop of
  \<^verbatim>\<open>generateVariadicFactoryArguments\<close>, from index \<open>i\<close> on.
\<close>

fun generateFactoryArguments_from ::
  "env \<Rightarrow> Container \<Rightarrow> getter \<Rightarrow> typeFactory \<Rightarrow> gotype list \<Rightarrow> gotype option \<Rightarrow> nat \<Rightarrow>
   Value list \<Rightarrow> state \<Rightarrow> Value list res \<times> state" where
  "generateFactoryArguments_from E c getf t ps variadic i [] s = (Inr [], s)"
| "generateFactoryArguments_from E c getf t ps variadic i (argument # rest) s =
     (case In ps variadic i of
        Inl p \<Rightarrow> (Inl p, s)
      | Inr expected \<Rightarrow>
          (case Resolve E c getf argument expected s of
             (Inl (Failed (TypeReferenceError typeID typeInstance _ _)), s') \<Rightarrow>
               (Inl (typeFactory_invalidReferencedTypeErr t ps variadic typeID typeInstance i), s')
           | (Inl f, s') \<Rightarrow> (Inl f, s')
           | (Inr a, s') \<Rightarrow>
               (case generateFactoryArguments_from E c getf t ps variadic (i + 1) rest s' of
                  (Inl f, s'') \<Rightarrow> (Inl f, s'')
                | (Inr as, s'') \<Rightarrow> (Inr (a # as), s''))))"

text \<open>
  The second loop of \<^verbatim>\<open>generateVariadicFactoryArguments\<close>: the elements of the
  variadic slice, from index \<open>i\<close> of the trailing arguments on.
\<close>

fun generateVariadic_from ::
  "env \<Rightarrow> Container \<Rightarrow> getter \<Rightarrow> typeFactory \<Rightarrow> gotype list \<Rightarrow> gotype option \<Rightarrow> gotype \<Rightarrow>
   nat \<Rightarrow> Value list \<Rightarrow> state \<Rightarrow> val list res \<times> state" where
  "generateVariadic_from E c getf t ps variadic expectedType i [] s = (Inr [], s)"
| "generateVariadic_from E c getf t ps variadic expectedType i (argument # rest) s =
     (case Resolve E c getf argument expectedType s of
        (Inl (Failed (TypeReferenceError typeID typeInstance _ _)), s') \<Rightarrow>
          (Inl (typeFactory_invalidReferencedTypeErr t ps variadic typeID typeInstance i), s')
      | (Inl f, s') \<Rightarrow> (Inl f, s')
      | (Inr resolvedArgument, s') \<Rightarrow>
          (case Set_val E expectedType resolvedArgument of
             Inl p \<Rightarrow> (Inl p, s')
           | Inr v \<Rightarrow>
               (case generateVariadic_from E c getf t ps variadic expectedType (i + 1) rest s' of
                  (Inl f, s'') \<Rightarrow> (Inl f, s'')
                | (Inr vs, s'') \<Rightarrow> (Inr (v # vs), s''))))"

definition generateVariadicFactoryArguments ::
  "env \<Rightarrow> Container \<Rightarrow> getter \<Rightarrow> typeFactory \<Rightarrow> gotype list \<Rightarrow> gotype \<Rightarrow> state \<Rightarrow>
   Value list res \<times> state" where
  "generateVariadicFactoryArguments E c getf t ps expectedType s =
     (let actualNumberOfArgs = length (In_types ps (Some expectedType)) in
      if actualNumberOfArgs - 1 > length (factoryArguments t) then
        (Inl (Panicked ''slice bounds out of range''), s)
      else
        (case generateFactoryArguments_from E c getf t ps (Some expectedType) 0
                (take (actualNumberOfArgs - 1) (factoryArguments t)) s of
           (Inl f, s') \<Rightarrow> (Inl f, s')
         | (Inr args, s') \<Rightarrow>
             (case generateVariadic_from E c getf t ps (Some expectedType) expectedType 0
                     (drop (actualNumberOfArgs - 1) (factoryArguments t)) s' of
                (Inl f, s'') \<Rightarrow> (Inl f, s'')
              | (Inr vs, s'') \<Rightarrow>
                  (Inr (args @ [Value (TSlice expectedType) (VSlice expectedType (Some vs))]),
                   s''))))"

definition generateFactoryArguments ::
  "env \<Rightarrow> Container \<Rightarrow> getter \<Rightarrow> typeFactory \<Rightarrow> gotype list \<Rightarrow> gotype option \<Rightarrow> state \<Rightarrow>
   Value list res \<times> state" where
  "generateFactoryArguments E c getf t ps variadic s =
     (case variadic of
        Some expectedType \<Rightarrow> generateVariadicFactoryArguments E c getf t ps expectedType s
      | None \<Rightarrow> generateFactoryArguments_from E c getf t ps None 0 (factoryArguments t) s)"

definition typeFactory_Generate ::
  "env \<Rightarrow> Container \<Rightarrow> getter \<Rightarrow> typeFactory \<Rightarrow> state \<Rightarrow> val res \<times> state" where
  "typeFactory_Generate E c getf t s =
     (case factoryType t of
        TFunc ps variadic outs \<Rightarrow>
          (case generateFactoryArguments E c getf t ps variadic s of
             (Inl f, s') \<Rightarrow> (Inl f, s')
           | (Inr args, s') \<Rightarrow>
               (case (if variadic \<noteq> None then Value_CallSlice E (factory t) args
                      else Value_Call E (factory t) args) of
                  Inl p \<Rightarrow> (Inl p, s')
                | Inr [] \<Rightarrow> (Inl (Panicked ''index out of range [0] with length 0''), s')
                | Inr (r # _) \<Rightarrow>
                    (case Value_Interface r of
                       Inl p \<Rightarrow> (Inl p, s')
                     | Inr v \<Rightarrow> (Inr v, s'))))
      | _ \<Rightarrow> (Inl (Panicked ''reflect: IsVariadic of non-func type''), s))"


subsection \<open>The struct factory: Generate\<close>

definition structType_invalidReferencedTypeErr ::
  "structType \<Rightarrow> string \<Rightarrow> val \<Rightarrow> nat \<Rightarrow> err" where
  \<open>structType_invalidReferencedTypeErr t typeID typeInstance i =
     Errorf ''the referenced type "@%s" (type %T) can not be used as field %d for struct type %v''
       [S typeID, T typeInstance, D (i + 1), Ty (structType t)]\<close>

text \<open>\<^verbatim>\<open>t.Field(i).Type\<close> of a struct type.\<close>

definition Field_Type :: "gotype \<Rightarrow> nat \<Rightarrow> gotype res" where
  "Field_Type t i =
     (case t of
        TStruct name fs \<Rightarrow>
          if i < length fs then Inr (snd (fs ! i))
          else Inl (Panicked ''reflect: Field index out of bounds'')
      | _ \<Rightarrow> Inl (Panicked ''reflect: Field of non-struct type''))"

text \<open>The loop of \<^verbatim>\<open>generateTypeFields\<close> from index \<open>i\<close> on.\<close>

fun generateTypeFields_from ::
  "env \<Rightarrow> Container \<Rightarrow> getter \<Rightarrow> structType \<Rightarrow> nat \<Rightarrow> Value list \<Rightarrow> state \<Rightarrow>
   Value list res \<times> state" where
  "generateTypeFields_from E c getf t i [] s = (Inr [], s)"
| "generateTypeFields_from E c getf t i (argument # rest) s =
     (case Field_Type (structType t) i of
        Inl p \<Rightarrow> (Inl p, s)
      | Inr expectedArgument \<Rightarrow>
          (case Resolve E c getf argument expectedArgument s of
             (Inl (Failed (TypeReferenceError typeID typeInstance _ _)), s') \<Rightarrow>
               (Inl (Failed (structType_invalidReferencedTypeErr t typeID typeInstance i)), s')
           | (Inl f, s') \<Rightarrow> (Inl f, s')
           | (Inr a, s') \<Rightarrow>
               (case generateTypeFields_from E c getf t (i + 1) rest s' of
                  (Inl f, s'') \<Rightarrow> (Inl f, s'')
                | (Inr as, s'') \<Rightarrow> (Inr (a # as), s''))))"

definition generateTypeFields ::
  "env \<Rightarrow> Container \<Rightarrow> getter \<Rightarrow> structType \<Rightarrow> state \<Rightarrow> Value list res \<times> state" where
  "generateTypeFields E c getf t s = generateTypeFields_from E c getf t 0 (structFields t) s"

text \<open>
  A struct field can be set through reflection only if its name is exported: the name
  begins with an upper-case letter, which for a first byte in ASCII is one of
  \<^verbatim>\<open>A\<close> to \<^verbatim>\<open>Z\<close>.
\<close>

definition IsExported :: "env \<Rightarrow> string \<Rightarrow> bool" where
  "IsExported E name =
     (name \<noteq> [] \<and>
      (if (of_char (hd name) :: nat) < 128
       then (65::nat) \<le> of_char (hd name) \<and> (of_char (hd name) :: nat) \<le> 90
       else unicode_IsUpper E name))"

text \<open>
  \<^verbatim>\<open>reflect.New\<close>: for a type of size zero the allocator returns the address
  \<^verbatim>\<open>runtime.zerobase\<close> and allocates nothing; otherwise the zero value of the type is
  put at the next address of the heap.
\<close>

definition New :: "gotype \<Rightarrow> state \<Rightarrow> addr \<times> state" where
  "New t s =
     (if zero_size t then (ZeroBase, s)
      else (Addr (length (heap s)), s\<lparr>heap := heap s @ [zero_val t]\<rparr>))"

text \<open>
  Writing the value \<open>v\<close> into field \<open>i\<close> of the struct at an address.  A struct at
  \<^verbatim>\<open>runtime.zerobase\<close> has size zero: there is nothing to write.
\<close>

definition store_field :: "addr \<Rightarrow> nat \<Rightarrow> val \<Rightarrow> state \<Rightarrow> state" where
  "store_field a i v s =
     (case a of
        ZeroBase \<Rightarrow> s
      | Addr n \<Rightarrow>
          (case heap s ! n of
             VStruct name fs vs \<Rightarrow> s\<lparr>heap := (heap s)[n := VStruct name fs (vs[i := v])]\<rparr>
           | _ \<Rightarrow> s))"

text \<open>
  The loop \<^verbatim>\<open>newStructInstance.Elem().Field(i).Set(args[i])\<close> from index \<open>i\<close> on, for
  the new value of type \<open>t\<close> at address \<open>a\<close>.
\<close>

fun Fields_Set ::
  "env \<Rightarrow> gotype \<Rightarrow> addr \<Rightarrow> nat \<Rightarrow> Value list \<Rightarrow> state \<Rightarrow> unit res \<times> state" where
  "Fields_Set E t a i [] s = (Inr (), s)"
| "Fields_Set E t a i (x # rest) s =
     (case t of
        TStruct name fs \<Rightarrow>
          if i \<ge> length fs then (Inl (Panicked ''reflect: Field index out of range''), s)
          else if \<not> IsExported E (fst (fs ! i)) then
            (Inl (Panicked
               ''reflect: reflect.Value.Set using value obtained using unexported field''), s)
          else
            (case Set_val E (snd (fs ! i)) x of
               Inl p \<Rightarrow> (Inl p, s)
             | Inr v \<Rightarrow> Fields_Set E t a (i + 1) rest (store_field a i v s))
      | _ \<Rightarrow> (Inl (Panicked ''reflect: call of reflect.Value.Field on non-struct Value''), s))"

text \<open>
  \<^verbatim>\<open>structType.Generate\<close>: the result is the pointer that \<^verbatim>\<open>reflect.New\<close> returned.
\<close>

definition structType_Generate ::
  "env \<Rightarrow> Container \<Rightarrow> getter \<Rightarrow> structType \<Rightarrow> state \<Rightarrow> val res \<times> state" where
  "structType_Generate E c getf t s =
     (case generateTypeFields E c getf t s of
        (Inl f, s') \<Rightarrow> (Inl f, s')
      | (Inr args, s') \<Rightarrow>
          (case New (structType t) s' of
             (newStructInstance, s1) \<Rightarrow>
               (case Fields_Set E (structType t) newStructInstance 0 args s1 of
                  (Inl p, s2) \<Rightarrow> (Inl p, s2)
                | (Inr _, s2) \<Rightarrow> (Inr (VPtr (structType t) (Some newStructInstance)), s2))))"

subsection \<open>The interface method Generate\<close>

fun Generate ::
  "env \<Rightarrow> Container \<Rightarrow> getter \<Rightarrow> TypeFactory \<Rightarrow> state \<Rightarrow> val res \<times> state" where
  "Generate E c getf (Func_type t) s = typeFactory_Generate E c getf t s"
| "Generate E c getf (Struct_type t) s = structType_Generate E c getf t s"
| "Generate E c getf (Invalid_type e) s = (Inl (Failed e), s)"
| "Generate E c getf (Instance_type v) s = (Inr v, s)"

subsection \<open>container.go\<close>

text \<open>
  \<^verbatim>\<open>Container.get\<close>.  The first argument is fuel: it bounds the depth of nested
  \<^verbatim>\<open>Generate\<close> calls, and a call that needs more ends with \<open>OutOfFuel\<close>.  The result
  pairs the instance with \<^verbatim>\<open>isDefined\<close>.
\<close>

primrec get :: "nat \<Rightarrow> env \<Rightarrow> Container \<Rightarrow> string \<Rightarrow> state \<Rightarrow> (val \<times> bool) res \<times> state" where
  "get 0 E c typeID s =
     (case typeCache s typeID of
        Some cached \<Rightarrow> (Inr (cached, True), s)
      | None \<Rightarrow>
          (case map_of (TypeRegistry c) typeID of
             None \<Rightarrow> (Inr (VNil, False), s)
           | Some generator \<Rightarrow> (Inl OutOfFuel, s)))"
| "get (Suc n) E c typeID s =
     (case typeCache s typeID of
        Some cached \<Rightarrow> (Inr (cached, True), s)
      | None \<Rightarrow>
          (case map_of (TypeRegistry c) typeID of
             None \<Rightarrow> (Inr (VNil, False), s)
           | Some generator \<Rightarrow>
               (case Generate E c (get n E c) generator s of
                  (Inl (Failed e), s') \<Rightarrow>
                    (Inl (Failed (Errorf ''goldi: error while generating type %q: %s''
                       [S typeID, Er e])), s')
                | (Inl f, s') \<Rightarrow> (Inl f, s')
                | (Inr instance, s') \<Rightarrow>
                    (Inr (instance, True),
                     s'\<lparr>typeCache := (typeCache s')(typeID \<mapsto> instance)\<rparr>))))"

definition Get :: "nat \<Rightarrow> env \<Rightarrow> Container \<Rightarrow> string \<Rightarrow> state \<Rightarrow> val res \<times> state" where
  "Get n E c typeID s =
     (case get n E c typeID s of
        (Inl f, s') \<Rightarrow> (Inl f, s')
      | (Inr (instance, isDefined), s') \<Rightarrow>
          if isDefined = False then
            (Inl (Failed (newUnknownTypeReferenceError typeID
               ''no such type has been defined'' [])), s')
          else (Inr instance, s'))"


section \<open>The validator: TypeReferencesConstraint\<close>












section \<open>Relations between states\<close>

text \<open>
  \<open>ext c s s'\<close>: the state \<open>s'\<close> extends \<open>s\<close>.  Every entry of the two caches of
  \<open>s\<close> is in the caches of \<open>s'\<close>, with the same instance and the same type, the heap
  has not shrunk, and the new entries of the cache of instances are for registered IDs.
  \<open>ext_getter\<close> says that a getter only extends the state.
\<close>

definition ext :: "Container \<Rightarrow> state \<Rightarrow> state \<Rightarrow> bool" where
  "ext c s s' =
     (typeCache s \<subseteq>\<^sub>m typeCache s' \<and> reflectionCache s \<subseteq>\<^sub>m reflectionCache s' \<and>
      length (heap s) \<le> length (heap s') \<and>
      dom (typeCache s') \<subseteq> dom (typeCache s) \<union> dom (map_of (TypeRegistry c)))"

definition ext_getter :: "Container \<Rightarrow> getter \<Rightarrow> bool" where
  "ext_getter c getf = (\<forall>typeID s r s'. getf typeID s = (r, s') \<longrightarrow> ext c s s')"

text \<open>Every cached ID is registered; so it is in the empty cache of a new container.\<close>

definition cached_are_registered :: "Container \<Rightarrow> state \<Rightarrow> bool" where
  "cached_are_registered c s = (dom (typeCache s) \<subseteq> dom (map_of (TypeRegistry c)))"

text \<open>
  \<open>later E c s s'\<close>: the state \<open>s'\<close> is reached from \<open>s\<close> by calls of \<^verbatim>\<open>Get\<close>, of
  \<^verbatim>\<open>Generate\<close> and of \<^verbatim>\<open>Resolve\<close> on the container, whatever they return.
\<close>

inductive later :: "env \<Rightarrow> Container \<Rightarrow> state \<Rightarrow> state \<Rightarrow> bool" for E c where
  later_now: "later E c s s"
| later_Get: "later E c s s' \<Longrightarrow> Get n E c typeID s' = (r, s'') \<Longrightarrow> later E c s s''"
| later_Generate:
    "later E c s s' \<Longrightarrow> Generate E c (get n E c) tf s' = (r', s'') \<Longrightarrow> later E c s s''"
| later_Resolve:
    "later E c s s' \<Longrightarrow> Resolve E c (get n E c) p t s' = (r'', s'') \<Longrightarrow> later E c s s''"

section \<open>Concrete inputs\<close>

text \<open>
  An environment: every function returns its own name as a string, no type has
  methods, the string of a type is written as Go prints it (a defined type by its name),
  and the upper-case letters outside ASCII are those of Latin-1, which UTF-8 encodes in
  two bytes.  Then a struct type with two fields, and the state of a new container in a
  new process: empty caches and an empty heap.
\<close>

fun commas :: "string list \<Rightarrow> string" where
  "commas [] = []"
| "commas [x] = x"
| "commas (x # y # r) = x @ '', '' @ commas (y # r)"

fun demo_String :: "gotype \<Rightarrow> string" where
  "demo_String TBool = ''bool''"
| "demo_String TInt = ''int''"
| "demo_String TString = ''string''"
| "demo_String TUnsafePointer = ''unsafe.Pointer''"
| "demo_String (TChan t) = ''chan '' @ demo_String t"
| "demo_String (TPtr t) = ''*'' @ demo_String t"
| "demo_String (TSlice t) = ''[]'' @ demo_String t"
| "demo_String (TStruct name fs) = name"
| "demo_String (TFunc ps variadic outs) =
     ''func('' @
     commas (map demo_String ps @
             (case variadic of None \<Rightarrow> [] | Some e \<Rightarrow> [''...'' @ demo_String e])) @
     '')'' @
     (if outs = [] then []
      else if length outs = 1 then '' '' @ commas (map demo_String outs)
      else '' ('' @ commas (map demo_String outs) @ '')'')"
| "demo_String (TInterface name ms) = name"
| "demo_String (TDefinedString name) = name"

definition latin1_IsUpper :: "string \<Rightarrow> bool" where
  "latin1_IsUpper name =
     (case name of
        a # b # _ \<Rightarrow>
          (of_char a :: nat) = 195 \<and> (128::nat) \<le> of_char b \<and> (of_char b :: nat) \<le> 158 \<and>
          (of_char b :: nat) \<noteq> 151
      | _ \<Rightarrow> False)"

definition demo_env :: env where
  "demo_env = \<lparr>call_func = (\<lambda>code args. [VString code]), Methods = (\<lambda>_. []),
                Type_String = demo_String, unicode_IsUpper = latin1_IsUpper\<rparr>"

definition Person :: gotype where
  "Person = TStruct ''Person'' [(''Name'', TString), (''Age'', TInt)]"

definition new_state :: state where
  "new_state = \<lparr>typeCache = Map.empty, reflectionCache = Map.empty, heap = []\<rparr>"

text \<open>A configuration with the one parameter \<^verbatim>\<open>n\<close>, a string.\<close>

definition demo_config :: "string \<rightharpoonup> val" where
  "demo_config = [''n'' \<mapsto> VString ''abc'']"

section \<open>Notions used in the statements about NewType\<close>

text \<open>
  The type \<^verbatim>\<open>buildFactoryCallArguments\<close> expects for the argument at index \<open>i\<close>: the
  parameter type, or the element type of the variadic parameter from its index on.
\<close>

definition expectedArgumentType :: "gotype list \<Rightarrow> gotype option \<Rightarrow> nat \<Rightarrow> gotype" where
  "expectedArgumentType ps variadic i =
     (case variadic of
        Some elem \<Rightarrow> if i \<ge> length ps then elem else ps ! i
      | None \<Rightarrow> ps ! i)"

text \<open>
  The one check of an argument against its parameter that \<^verbatim>\<open>NewType\<close> makes: the
  argument is a Go string that is no placeholder and the parameter is not of kind
  string.
\<close>

definition literal_string_mismatch :: "gotype list \<Rightarrow> gotype option \<Rightarrow> nat \<Rightarrow> val \<Rightarrow> bool" where
  "literal_string_mismatch ps variadic i argument =
     (case argument of
        VString stringArg \<Rightarrow>
          \<not> IsParameterOrTypeReference stringArg \<and>
          Kind (expectedArgumentType ps variadic i) \<noteq> KString
      | _ \<Rightarrow> False)"

definition no_literal_string_mismatch :: "gotype list \<Rightarrow> gotype option \<Rightarrow> val list \<Rightarrow> bool" where
  "no_literal_string_mismatch ps variadic args =
     list_all (\<lambda>(i, a). \<not> literal_string_mismatch ps variadic i a) (zip [0..<length args] args)"

text \<open>
  The number \<open>n\<close> of arguments fits the function type: at least \<^verbatim>\<open>NumIn()\<close> for a
  variadic function, exactly \<^verbatim>\<open>NumIn()\<close> otherwise.
\<close>

definition arity_ok :: "gotype list \<Rightarrow> gotype option \<Rightarrow> nat \<Rightarrow> bool" where
  "arity_ok ps variadic n =
     (if variadic \<noteq> None then length (In_types ps variadic) \<le> n
      else length (In_types ps variadic) = n)"

section \<open>Notions used in the statements about the struct factory\<close>






text \<open>
  The contents of a struct with fields \<open>fs\<close> after the values \<open>xs\<close> were set into
  its first fields: the other fields hold the zero values of their types.
\<close>

definition assembled :: "(string \<times> gotype) list \<Rightarrow> Value list \<Rightarrow> val list" where
  "assembled fs xs = map arg_val xs @ map (\<lambda>f. zero_val (snd f)) (drop (length xs) fs)"


definition LoggerProvider :: gotype where
  "LoggerProvider = TStruct ''LoggerProvider'' []"


text \<open>
  A registry: \<^verbatim>\<open>A\<close> is a \<open>Person\<close> built from \<^verbatim>\<open>@B\<close> and \<^verbatim>\<open>@missing\<close>, \<^verbatim>\<open>B\<close> is an
  injected string, \<^verbatim>\<open>P\<close> is a \<open>Person\<close> built from \<^verbatim>\<open>@B\<close>.
\<close>

definition demo_registry :: "(string \<times> TypeFactory) list" where
  "demo_registry =
     [(''A'', Struct_type \<lparr>structType = Person,
          structFields = [Value TString (VString ''@B''), Value TString (VString ''@missing'')]\<rparr>),
      (''B'', Instance_type (VString ''bob'')),
      (''P'', Struct_type \<lparr>structType = Person,
          structFields = [Value TString (VString ''@B'')]\<rparr>)]"

section \<open>Notions used in the statements about the validator\<close>








section \<open>Notions used in the statements about failed constructions\<close>

text \<open>
  \<open>arg_pairs\<close>: the arguments of a factory, each with the type it is resolved
  against, in the order in which \<^verbatim>\<open>Generate\<close> resolves them.  \<open>resolve_all\<close> resolves
  such a list from left to right and stops at the first error.
\<close>

fun resolve_all ::
  "env \<Rightarrow> Container \<Rightarrow> getter \<Rightarrow> (Value \<times> gotype) list \<Rightarrow> state \<Rightarrow> Value list option \<times> state" where
  "resolve_all E c getf [] s = (Some [], s)"
| "resolve_all E c getf (p # rest) s =
     (case Resolve E c getf (fst p) (snd p) s of
        (Inl f, s') \<Rightarrow> (None, s')
      | (Inr v, s') \<Rightarrow>
          (case resolve_all E c getf rest s' of
             (None, s'') \<Rightarrow> (None, s'')
           | (Some vs, s'') \<Rightarrow> (Some (v # vs), s'')))"

fun arg_pairs :: "TypeFactory \<Rightarrow> (Value \<times> gotype) list" where
  "arg_pairs (Func_type t) =
     (case factoryType t of
        TFunc ps variadic outs \<Rightarrow>
          (case variadic of
             None \<Rightarrow> zip (factoryArguments t) ps
           | Some e \<Rightarrow>
               if length ps > length (factoryArguments t) then []
               else zip (take (length ps) (factoryArguments t)) ps @
                    map (\<lambda>a. (a, e)) (drop (length ps) (factoryArguments t)))
      | _ \<Rightarrow> [])"
| "arg_pairs (Struct_type t) =
     (case structType t of TStruct name fs \<Rightarrow> zip (structFields t) (map snd fs) | _ \<Rightarrow> [])"
| "arg_pairs (Invalid_type _) = []"
| "arg_pairs (Instance_type _) = []"

text \<open>\<open>stops_in\<close>: the state \<open>s'\<close> is the one left by resolving some prefix of the list.\<close>

definition stops_in ::
  "env \<Rightarrow> Container \<Rightarrow> getter \<Rightarrow> (Value \<times> gotype) list \<Rightarrow> state \<Rightarrow> state \<Rightarrow> bool" where
  "stops_in E c getf pairs s s' = (\<exists>k. s' = snd (resolve_all E c getf (take k pairs) s))"

text \<open>The ID that \<^verbatim>\<open>Resolve\<close> asks the container for, if the argument is a type reference.\<close>

definition ref_id :: "Value \<Rightarrow> string option" where
  "ref_id a =
     (if Value_Kind a \<noteq> KString then None
      else (case arg_val a of
              VString stringParameter \<Rightarrow>
                if IsTypeReference stringParameter then Some (ID (NewTypeID stringParameter))
                else None
            | _ \<Rightarrow> None))"

text \<open>
  \<open>needs_in E c s x X\<close>: in every state that extends \<open>s\<close>, \<^verbatim>\<open>Generate\<close> of the
  factory of \<open>x\<close> returns an instance only if \<^verbatim>\<open>get\<close> returns one for some ID of
  \<open>X\<close>, with the same fuel.  \<open>pending E c s X y\<close>: the IDs of \<open>X\<close> are under construction
  while \<^verbatim>\<open>get\<close> is called for \<open>y\<close>; they are registered, not in the cache, and each
  needs another of them or \<open>y\<close>.
\<close>

definition needs_in :: "env \<Rightarrow> Container \<Rightarrow> state \<Rightarrow> string \<Rightarrow> string set \<Rightarrow> bool" where
  "needs_in E c s x X =
     (\<forall>w k g v. ext c s w \<and> map_of (TypeRegistry c) x = Some g \<and>
        fst (Generate E c (get k E c) g w) = Inr v \<longrightarrow>
        (\<exists>x'\<in>X. \<exists>iv. fst (get k E c x' w) = Inr iv))"

definition pending :: "env \<Rightarrow> Container \<Rightarrow> state \<Rightarrow> string set \<Rightarrow> string \<Rightarrow> bool" where
  "pending E c s X y =
     (\<forall>x\<in>X. map_of (TypeRegistry c) x \<noteq> None \<and> typeCache s x = None \<and>
        needs_in E c s x (insert y X))"

section \<open>The state only grows\<close>

lemma ext_refl: "ext c s s"
  by (simp add: ext_def)

lemma ext_trans: "ext c s s' \<Longrightarrow> ext c s' s'' \<Longrightarrow> ext c s s''"
  unfolding ext_def by (intro conjI; (blast intro: map_le_trans | linarith))

lemma ext_getterD: "ext_getter c getf \<Longrightarrow> getf typeID s = (r, s') \<Longrightarrow> ext c s s'"
  by (auto simp: ext_getter_def)

lemma GetType_ext: "GetType E obj s = (r, s') \<Longrightarrow> ext c s s'"
  by (auto simp: GetType_def Let_def ext_def map_le_def split: option.splits)

lemma resolveTypeReference_ext:
  assumes "ext_getter c getf" "resolveTypeReference E getf p t s = (r, s')"
  shows "ext c s s'"
proof -
  obtain r0 s0 where g: "getf (ID (NewTypeID p)) s = (r0, s0)" by (cases "getf (ID (NewTypeID p)) s")
  have e0: "ext c s s0" using ext_getterD[OF assms(1) g] .
  from assms(2) g have "s' = s0 \<or> (\<exists>inst r1. GetType E inst s0 = (r1, s'))"
    by (auto simp: resolveTypeReference_def Let_def
        split: sum.splits prod.splits if_splits option.splits)
  then show ?thesis using e0 by (auto dest: GetType_ext[where c=c] intro: ext_trans)
qed

lemma Resolve_ext:
  assumes "ext_getter c getf" "Resolve E c getf p t s = (r, s')"
  shows "ext c s s'"
  using assms
  by (auto simp: Resolve_def ext_refl split: if_splits val.splits dest: resolveTypeReference_ext)

lemma generateFactoryArguments_from_ext:
  assumes "ext_getter c getf"
  shows "generateFactoryArguments_from E c getf t ps variadic i args s = (r, s') \<Longrightarrow> ext c s s'"
proof (induction args arbitrary: i s r s')
  case Nil
  then show ?case by (simp add: ext_refl)
next
  case (Cons a args)
  show ?case
  proof (cases "In ps variadic i")
    case (Inl p)
    with Cons.prems show ?thesis by (simp add: ext_refl)
  next
    case (Inr expected)
    obtain r1 s1 where R: "Resolve E c getf a expected s = (r1, s1)"
      by (cases "Resolve E c getf a expected s")
    have e1: "ext c s s1" using Resolve_ext[OF assms R] .
    show ?thesis
    proof (cases r1)
      case (Inl f)
      with Cons.prems Inr R have "s' = s1"
        by (auto split: failure.splits err.splits)
      with e1 show ?thesis by simp
    next
      case (Inr v)
      obtain r2 s2 where G: "generateFactoryArguments_from E c getf t ps variadic (i + 1) args s1 = (r2, s2)"
        by (cases "generateFactoryArguments_from E c getf t ps variadic (i + 1) args s1")
      from Cons.prems \<open>In ps variadic i = Inr expected\<close> R Inr G have "s' = s2"
        by (auto split: sum.splits)
      with Cons.IH[OF G] e1 show ?thesis by (auto intro: ext_trans)
    qed
  qed
qed


lemma generateVariadic_from_ext:
  assumes "ext_getter c getf"
  shows "generateVariadic_from E c getf t ps variadic et i args s = (r, s') \<Longrightarrow> ext c s s'"
proof (induction args arbitrary: i s r s')
  case Nil
  then show ?case by (simp add: ext_refl)
next
  case (Cons a args)
  obtain r1 s1 where R: "Resolve E c getf a et s = (r1, s1)"
    by (cases "Resolve E c getf a et s")
  have e1: "ext c s s1" using Resolve_ext[OF assms R] .
  show ?case
  proof (cases r1)
    case (Inl f)
    with Cons.prems R have "s' = s1"
      by (auto split: failure.splits err.splits)
    with e1 show ?thesis by simp
  next
    case (Inr x)
    show ?thesis
    proof (cases "Set_val E et x")
      case (Inl p)
      with Cons.prems R Inr have "s' = s1" by auto
      with e1 show ?thesis by simp
    next
      case (Inr v)
      obtain r2 s2 where G: "generateVariadic_from E c getf t ps variadic et (i + 1) args s1 = (r2, s2)"
        by (cases "generateVariadic_from E c getf t ps variadic et (i + 1) args s1")
      from Cons.prems R \<open>r1 = Inr x\<close> Inr G have "s' = s2"
        by (auto split: sum.splits)
      with Cons.IH[OF G] e1 show ?thesis by (auto intro: ext_trans)
    qed
  qed
qed

lemma generateFactoryArguments_ext:
  assumes "ext_getter c getf" "generateFactoryArguments E c getf t ps variadic s = (r, s')"
  shows "ext c s s'"
proof (cases variadic)
  case None
  with assms show ?thesis
    by (auto simp: generateFactoryArguments_def dest: generateFactoryArguments_from_ext)
next
  case (Some et)
  let ?k = "length (In_types ps (Some et)) - 1"
  show ?thesis
  proof (cases "?k > length (factoryArguments t)")
    case True
    with assms Some show ?thesis
      by (simp add: generateFactoryArguments_def generateVariadicFactoryArguments_def Let_def ext_refl)
  next
    case False
    obtain r1 s1 where A: "generateFactoryArguments_from E c getf t ps (Some et) 0
        (take ?k (factoryArguments t)) s = (r1, s1)"
      by (cases "generateFactoryArguments_from E c getf t ps (Some et) 0 (take ?k (factoryArguments t)) s")
    have e1: "ext c s s1" using generateFactoryArguments_from_ext[OF assms(1) A] .
    obtain r2 s2 where B: "generateVariadic_from E c getf t ps (Some et) et 0
        (drop ?k (factoryArguments t)) s1 = (r2, s2)"
      by (cases "generateVariadic_from E c getf t ps (Some et) et 0 (drop ?k (factoryArguments t)) s1")
    have e2: "ext c s1 s2" using generateVariadic_from_ext[OF assms(1) B] .
    from assms(2) Some False A B have "s' = s1 \<or> s' = s2"
      by (auto simp: generateFactoryArguments_def generateVariadicFactoryArguments_def Let_def
               split: sum.splits)
    with e1 e2 show ?thesis by (auto intro: ext_trans)
  qed
qed

lemma typeFactory_Generate_ext:
  assumes "ext_getter c getf" "typeFactory_Generate E c getf t s = (r, s')"
  shows "ext c s s'"
proof (cases "factoryType t")
  case (TFunc ps variadic outs)
  obtain r1 s1 where A: "generateFactoryArguments E c getf t ps variadic s = (r1, s1)"
    by (cases "generateFactoryArguments E c getf t ps variadic s")
  from assms(2) TFunc A have "s' = s1"
    by (auto simp: typeFactory_Generate_def split: sum.splits list.splits)
  with generateFactoryArguments_ext[OF assms(1) A] show ?thesis by simp
qed (use assms in \<open>auto simp: typeFactory_Generate_def ext_refl\<close>)

lemma generateTypeFields_from_ext:
  assumes "ext_getter c getf"
  shows "generateTypeFields_from E c getf t i args s = (r, s') \<Longrightarrow> ext c s s'"
proof (induction args arbitrary: i s r s')
  case Nil
  then show ?case by (simp add: ext_refl)
next
  case (Cons a args)
  show ?case
  proof (cases "Field_Type (structType t) i")
    case (Inl p)
    with Cons.prems show ?thesis by (simp add: ext_refl)
  next
    case (Inr expected)
    obtain r1 s1 where R: "Resolve E c getf a expected s = (r1, s1)"
      by (cases "Resolve E c getf a expected s")
    have e1: "ext c s s1" using Resolve_ext[OF assms R] .
    show ?thesis
    proof (cases r1)
      case (Inl f)
      with Cons.prems Inr R have "s' = s1"
        by (auto split: failure.splits err.splits)
      with e1 show ?thesis by simp
    next
      case (Inr v)
      obtain r2 s2 where G: "generateTypeFields_from E c getf t (i + 1) args s1 = (r2, s2)"
        by (cases "generateTypeFields_from E c getf t (i + 1) args s1")
      from Cons.prems \<open>Field_Type (structType t) i = Inr expected\<close> R Inr G have "s' = s2"
        by (auto split: sum.splits)
      with Cons.IH[OF G] e1 show ?thesis by (auto intro: ext_trans)
    qed
  qed
qed

lemma store_field_same:
  "typeCache (store_field a i v s) = typeCache s \<and>
   reflectionCache (store_field a i v s) = reflectionCache s \<and>
   length (heap (store_field a i v s)) = length (heap s)"
  by (auto simp: store_field_def split: addr.splits val.splits)

lemma Fields_Set_same:
  "Fields_Set E t a i xs s = (r, s') \<Longrightarrow>
     typeCache s' = typeCache s \<and> reflectionCache s' = reflectionCache s \<and>
     length (heap s') = length (heap s)"
proof (induction xs arbitrary: i s)
  case Nil
  then show ?case by simp
next
  case (Cons x xs)
  show ?case
  proof (cases "\<exists>name fs v. t = TStruct name fs \<and> i < length fs
        \<and> IsExported E (fst (fs ! i)) \<and> Set_val E (snd (fs ! i)) x = Inr v")
    case True
    then obtain name fs v where h: "t = TStruct name fs"
      "i < length fs" "IsExported E (fst (fs ! i))" "Set_val E (snd (fs ! i)) x = Inr v" by blast
    with Cons.prems have "Fields_Set E t a (i + 1) xs (store_field a i v s) = (r, s')" by simp
    from Cons.IH[OF this] show ?thesis by (simp add: store_field_same)
  next
    case False
    with Cons.prems have "s' = s"
      by (auto split: if_splits gotype.splits sum.splits)
    then show ?thesis by simp
  qed
qed

lemma New_ext: "New t s = (a, s') \<Longrightarrow> ext c s s'"
  by (auto simp: New_def ext_def split: if_splits)

lemma structType_Generate_ext:
  assumes "ext_getter c getf" "structType_Generate E c getf t s = (r, s')"
  shows "ext c s s'"
proof -
  obtain r1 s1 where A: "generateTypeFields_from E c getf t 0 (structFields t) s = (r1, s1)"
    by (cases "generateTypeFields_from E c getf t 0 (structFields t) s")
  have e1: "ext c s s1" using generateTypeFields_from_ext[OF assms(1) A] .
  show ?thesis
  proof (cases r1)
    case (Inl f)
    with assms(2) A have "s' = s1" by (simp add: structType_Generate_def generateTypeFields_def)
    with e1 show ?thesis by simp
  next
    case (Inr args)
    obtain a s1' where N: "New (structType t) s1 = (a, s1')" by (cases "New (structType t) s1")
    obtain r2 s2 where B: "Fields_Set E (structType t) a 0 args s1' = (r2, s2)"
      by (cases "Fields_Set E (structType t) a 0 args s1'")
    from assms(2) A Inr N B have "s' = s2"
      by (auto simp: structType_Generate_def generateTypeFields_def split: sum.splits)
    moreover from Fields_Set_same[OF B] have "ext c s1' s2"
      by (simp add: ext_def)
    ultimately show ?thesis using e1 New_ext[OF N, of c] by (auto intro: ext_trans)
  qed
qed

lemma Generate_ext:
  assumes "ext_getter c getf" "Generate E c getf tf s = (r, s')"
  shows "ext c s s'"
  using assms
  by (cases tf) (auto simp: ext_refl dest: typeFactory_Generate_ext structType_Generate_ext)

lemma get_ext: "get n E c typeID s = (r, s') \<Longrightarrow> ext c s s'"
proof (induction n arbitrary: typeID s r s')
  case 0
  then show ?case by (auto simp: ext_refl split: option.splits)
next
  case (Suc n)
  have G: "ext_getter c (get n E c)"
    unfolding ext_getter_def using Suc.IH by blast
  show ?case
  proof (cases "typeCache s typeID")
    case (Some v)
    with Suc.prems show ?thesis by (simp add: ext_refl)
  next
    case None
    show ?thesis
    proof (cases "map_of (TypeRegistry c) typeID")
      case N2: None
      with None Suc.prems show ?thesis by (simp add: ext_refl)
    next
      case (Some generator)
      obtain r1 s1 where A: "Generate E c (get n E c) generator s = (r1, s1)"
        by (cases "Generate E c (get n E c) generator s")
      have e1: "ext c s s1" using Generate_ext[OF G A] .
      show ?thesis
      proof (cases r1)
        case (Inl f)
        with Suc.prems None Some A have "s' = s1" by (auto split: failure.splits)
        with e1 show ?thesis by simp
      next
        case (Inr inst)
        with Suc.prems None Some A
        have s': "s' = s1\<lparr>typeCache := (typeCache s1)(typeID \<mapsto> inst)\<rparr>" by simp
        from e1 None Some show ?thesis
          unfolding s' ext_def map_le_def by auto
      qed
    qed
  qed
qed

lemma ext_getter_get: "ext_getter c (get n E c)"
  unfolding ext_getter_def using get_ext by blast

lemma later_ext: "later E c s s' \<Longrightarrow> ext c s s'"
proof (induction rule: later.induct)
  case (later_now s)
  show ?case by (rule ext_refl)
next
  case (later_Get s s' n typeID r s'')
  obtain r0 where "get n E c typeID s' = (r0, s'')"
    using later_Get.hyps(2) by (auto simp: Get_def split: prod.splits sum.splits if_splits)
  then have "ext c s' s''" by (rule get_ext)
  with later_Get.IH show ?case by (rule ext_trans)
next
  case (later_Generate s s' n tf r' s'')
  have "ext_getter c (get n E c)" unfolding ext_getter_def using get_ext by blast
  from Generate_ext[OF this later_Generate.hyps(2)] later_Generate.IH
  show ?case by (blast intro: ext_trans)
next
  case (later_Resolve s s' n p t r'' s'')
  have "ext_getter c (get n E c)" unfolding ext_getter_def using get_ext by blast
  from Resolve_ext[OF this later_Resolve.hyps(2)] later_Resolve.IH
  show ?case by (blast intro: ext_trans)
qed

lemma cached_are_registered_ext:
  "cached_are_registered c s \<Longrightarrow> ext c s s' \<Longrightarrow> cached_are_registered c s'"
  unfolding cached_are_registered_def ext_def by blast

lemma cached_are_registered_later:
  "typeCache s0 = Map.empty \<Longrightarrow> later E c s0 s \<Longrightarrow> cached_are_registered c s"
  using cached_are_registered_ext[of c s0 s] later_ext[of E c s0 s]
  by (simp add: cached_are_registered_def)

lemma get_unregistered:
  "cached_are_registered c s \<Longrightarrow> map_of (TypeRegistry c) typeID = None \<Longrightarrow>
     get n E c typeID s = (Inr (VNil, False), s)"
  by (cases n) (auto simp: cached_are_registered_def split: option.splits)

section \<open>Placeholders\<close>

lemma IsParameter_percent: "IsParameter (CHR ''%'' # name @ ''%'')"
  by (simp add: IsParameter_def)

lemma not_IsTypeReference_percent: "\<not> IsTypeReference (CHR ''%'' # name @ ''%'')"
  by (simp add: IsTypeReference_def)

lemma parameterName_percent:
  "take (length (CHR ''%'' # name @ ''%'') - 2) (drop 1 (CHR ''%'' # name @ ''%'')) = name"
  by simp

lemma Resolve_parameter:
  "Resolve E c getf (Value TString (VString (CHR ''%'' # name @ ''%''))) t s =
     (resolveParameter E c (Value TString (VString (CHR ''%'' # name @ ''%'')))
        (CHR ''%'' # name @ ''%'') t, s)"
  using IsParameter_percent[of name] not_IsTypeReference_percent[of name]
  by (simp add: Resolve_def IsParameterOrTypeReference_def)

lemma resolveParameter_percent:
  "resolveParameter E c p (CHR ''%'' # name @ ''%'') t =
     (case Config c name of None \<Rightarrow> Inr p
      | Some configuredValue \<Rightarrow> New_Elem_Set E t (ValueOf configuredValue))"
  by (simp add: resolveParameter_def)

lemma IsOptional_NewTypeID_optional: "IsOptional (NewTypeID (''@?'' @ r))"
  by (simp add: NewTypeID_def Let_def split: option.splits)

lemma IsOptional_NewTypeID_mandatory:
  "r \<noteq> [] \<Longrightarrow> hd r \<noteq> CHR ''?'' \<Longrightarrow> \<not> IsOptional (NewTypeID (CHR ''@'' # r))"
  by (simp add: NewTypeID_def Let_def split: option.splits)

lemma ID_NewTypeID_optional:
  "index_colons r = None \<Longrightarrow> ID (NewTypeID (''@?'' @ r)) = r"
  by (simp add: NewTypeID_def Let_def)

lemma ID_NewTypeID_mandatory:
  "r \<noteq> [] \<Longrightarrow> hd r \<noteq> CHR ''?'' \<Longrightarrow> index_colons r = None \<Longrightarrow> ID (NewTypeID (CHR ''@'' # r)) = r"
  by (simp add: NewTypeID_def Let_def)

lemma Resolve_type_reference:
  "r \<noteq> [] \<Longrightarrow>
   Resolve E c getf (Value TString (VString (CHR ''@'' # r))) t s =
     resolveTypeReference E getf (CHR ''@'' # r) t s"
  by (cases r) (simp_all add: Resolve_def IsParameterOrTypeReference_def IsTypeReference_def)

section \<open>C3: parameter placeholders\<close>

text \<open>
  Claim C3, as amended.  For a placeholder \<^verbatim>\<open>%name%\<close>: when \<open>name\<close> is no key of
  \<^verbatim>\<open>Config\<close>, \<^verbatim>\<open>Resolve\<close> returns the placeholder itself, a string value, and no error.
  When \<open>name\<close> is a key and the type of the configured value is assignable to the
  expected type, \<^verbatim>\<open>Resolve\<close> returns the configured value as a value of the expected
  type; no conversion is made.
\<close>

theorem C3_parameter_placeholder:
  "(Config c name = None \<longrightarrow>
      Resolve E c getf (Value TString (VString (CHR ''%'' # name @ ''%''))) expectedType s =
        (Inr (Value TString (VString (CHR ''%'' # name @ ''%''))), s)) \<and>
   (\<forall>v t. Config c name = Some v \<and> TypeOf v = Some t \<and> AssignableTo E t expectedType \<longrightarrow>
      Resolve E c getf (Value TString (VString (CHR ''%'' # name @ ''%''))) expectedType s =
        (Inr (Value expectedType v), s))"
  by (simp add: Resolve_parameter resolveParameter_percent New_Elem_Set_def ValueOf_def)

text \<open>
  The theorem at \<^verbatim>\<open>%m%\<close>, which is not configured, and at \<^verbatim>\<open>%n%\<close>, configured with a
  string and expected as a string.
\<close>

theorem C3_witness:
  "Resolve demo_env (NewContainer [] demo_config) (get 0 demo_env (NewContainer [] demo_config))
      (Value TString (VString ''%m%'')) TInt new_state =
        (Inr (Value TString (VString ''%m%'')), new_state) \<and>
   Resolve demo_env (NewContainer [] demo_config) (get 0 demo_env (NewContainer [] demo_config))
      (Value TString (VString ''%n%'')) TString new_state =
        (Inr (Value TString (VString ''abc'')), new_state)"
  using C3_parameter_placeholder[of "NewContainer [] demo_config" "''m''" demo_env
          "get 0 demo_env (NewContainer [] demo_config)" TInt new_state]
        C3_parameter_placeholder[of "NewContainer [] demo_config" "''n''" demo_env
          "get 0 demo_env (NewContainer [] demo_config)" TString new_state]
  by (simp add: NewContainer_def demo_config_def AssignableTo_def)

text \<open>
  The claim as stated fails: \<^verbatim>\<open>n\<close> is configured with a string, the expected type is
  \<^verbatim>\<open>int\<close>, and \<^verbatim>\<open>Resolve\<close> does not return a value: \<^verbatim>\<open>reflect.Value.Set\<close> panics.
\<close>

theorem C3_counterexample:
  "Config (NewContainer [] demo_config) ''n'' = Some (VString ''abc'') \<and>
   fst (Resolve demo_env (NewContainer [] demo_config)
      (get 0 demo_env (NewContainer [] demo_config))
      (Value TString (VString ''%n%'')) TInt new_state) =
     Inl (Panicked ''reflect.Set: value is not assignable to type'')"
  by (simp add: Resolve_def IsParameterOrTypeReference_def IsParameter_def IsTypeReference_def
      resolveParameter_def NewContainer_def demo_config_def New_Elem_Set_def ValueOf_def
      AssignableTo_def)

section \<open>C4: optional references\<close>

text \<open>
  Claim C4.  In every state \<open>s\<close> that a container reaches from its creation, for every
  expected type and every optional reference \<^verbatim>\<open>@?id\<close> whose type ID is not registered,
  \<^verbatim>\<open>Resolve\<close> returns the zero value of the expected type, and no error.  The type ID
  of the reference is \<open>id\<close> itself when \<open>id\<close> has no member selector
  (lemma \<open>ID_NewTypeID_optional\<close>).
\<close>

theorem C4_optional_reference:
  "typeCache s0 = Map.empty \<Longrightarrow> later E c s0 s \<Longrightarrow>
   map_of (TypeRegistry c) (ID (NewTypeID (''@?'' @ r))) = None \<Longrightarrow>
   Resolve E c (get n E c) (Value TString (VString (''@?'' @ r))) expectedType s =
     (Inr (Zero expectedType), s)"
  using IsOptional_NewTypeID_optional[of r] cached_are_registered_later[of s0 E c s]
  by (simp add: Resolve_type_reference resolveTypeReference_def get_unregistered Let_def)

text \<open>The theorem at \<^verbatim>\<open>@?missing\<close> in a new container, for the type \<open>Person\<close>.\<close>

theorem C4_witness:
  "typeCache new_state = Map.empty \<and>
   later demo_env (NewContainer [] Map.empty) new_state new_state \<and>
   map_of (TypeRegistry (NewContainer [] Map.empty)) (ID (NewTypeID ''@?missing'')) = None \<and>
   Resolve demo_env (NewContainer [] Map.empty) (get 3 demo_env (NewContainer [] Map.empty))
     (Value TString (VString ''@?missing'')) Person new_state =
     (Inr (Value Person (VStruct ''Person'' [(''Name'', TString), (''Age'', TInt)]
        [VString [], VInt 0])), new_state)"
proof -
  have a: "typeCache new_state = Map.empty" by (simp add: new_state_def)
  have l: "later demo_env (NewContainer [] Map.empty) new_state new_state" by (rule later_now)
  have b: "map_of (TypeRegistry (NewContainer [] Map.empty)) (ID (NewTypeID (''@?'' @ ''missing''))) = None"
    by (simp add: NewContainer_def)
  from C4_optional_reference[OF a l b, of 3 Person] a l b show ?thesis
    by (simp add: Zero_def Person_def)
qed

section \<open>C5: mandatory references and undefined types\<close>

text \<open>
  Claim C5.  In every state that a container reaches from its creation: for every
  mandatory reference \<^verbatim>\<open>@id\<close> whose type ID is not registered, \<^verbatim>\<open>Resolve\<close> fails with
  an unknown-type-reference error that carries the type ID; and \<^verbatim>\<open>Get\<close> on a type ID
  that is not registered fails with the error "no such type has been defined" for that
  ID and returns no value.  The type ID of the reference is \<open>id\<close> itself when \<open>id\<close> has
  no member selector (lemma \<open>ID_NewTypeID_mandatory\<close>).
\<close>

theorem C5_mandatory_reference:
  \<open>typeCache s0 = Map.empty \<Longrightarrow> later E c s0 s \<Longrightarrow>
   (r \<noteq> [] \<and> hd r \<noteq> CHR ''?'' \<and>
    map_of (TypeRegistry c) (ID (NewTypeID (CHR ''@'' # r))) = None \<longrightarrow>
      Resolve E c (get n E c) (Value TString (VString (CHR ''@'' # r))) expectedType s =
        (Inl (Failed (UnknownTypeReferenceError (ID (NewTypeID (CHR ''@'' # r)))
           ''the referenced type "@%s" has not been defined''
           [S (ID (NewTypeID (CHR ''@'' # r)))])), s)) \<and>
   (map_of (TypeRegistry c) typeID = None \<longrightarrow>
      Get n E c typeID s =
        (Inl (Failed (UnknownTypeReferenceError typeID ''no such type has been defined'' [])), s))\<close>
  using IsOptional_NewTypeID_mandatory[of r] cached_are_registered_later[of s0 E c s]
  by (auto simp: Resolve_type_reference resolveTypeReference_def get_unregistered Let_def
      Get_def newUnknownTypeReferenceError_def)

text \<open>The theorem at \<^verbatim>\<open>@missing\<close> and at the ID \<^verbatim>\<open>missing\<close> in a new container.\<close>

theorem C5_witness:
  \<open>typeCache new_state = Map.empty \<and>
   later demo_env (NewContainer [] Map.empty) new_state new_state \<and>
   ID (NewTypeID ''@missing'') = ''missing'' \<and>
   Resolve demo_env (NewContainer [] Map.empty) (get 3 demo_env (NewContainer [] Map.empty))
     (Value TString (VString ''@missing'')) TInt new_state =
     (Inl (Failed (UnknownTypeReferenceError ''missing''
           ''the referenced type "@%s" has not been defined'' [S ''missing''])), new_state) \<and>
   Get 3 demo_env (NewContainer [] Map.empty) ''missing'' new_state =
     (Inl (Failed (UnknownTypeReferenceError ''missing'' ''no such type has been defined'' [])),
      new_state)\<close>
proof -
  have a: "typeCache new_state = Map.empty" by (simp add: new_state_def)
  have l: "later demo_env (NewContainer [] Map.empty) new_state new_state" by (rule later_now)
  have i: "ID (NewTypeID ''@missing'') = ''missing''"
    by (simp add: NewTypeID_def Let_def)
  from C5_mandatory_reference[OF a l, of "''missing''" 3 TInt "''missing''"] a l i
  show ?thesis
    by (simp add: NewContainer_def)
qed

section \<open>C2: the number of arguments of a function factory\<close>

lemma arity_ok_simps:
  "arity_ok ps None n = (length ps = n)"
  "arity_ok ps (Some e) n = (length ps + 1 \<le> n)"
  by (simp_all add: arity_ok_def In_types_def)

lemma expected_in_range:
  assumes "variadic = None \<longrightarrow> i < length ps"
  shows "(case variadic of
              Some elem \<Rightarrow> if i \<ge> length (In_types ps variadic) - 1 then Inr elem else In ps variadic i
            | None \<Rightarrow> In ps variadic i) = Inr (expectedArgumentType ps variadic i)"
  using assms
  by (auto simp: In_def In_types_def expectedArgumentType_def nth_append split: option.splits)

lemma Value_Kind_ValueOf_VString: "Value_Kind (ValueOf (VString x)) = KString"
  by (simp add: ValueOf_def)

lemma build_step:
  assumes "variadic = None \<longrightarrow> i < length ps"
  shows "buildFactoryCallArguments_from ps variadic i (a # rest) =
     (if literal_string_mismatch ps variadic i a
      then Inl (Failed (Errorf ''input argument %d is of type %s but needs to be a %s''
                 [D (i + 1), K (Value_Kind (ValueOf a)), K (Kind (expectedArgumentType ps variadic i))]))
      else (case buildFactoryCallArguments_from ps variadic (i + 1) rest of
               Inl p \<Rightarrow> Inl p
             | Inr args \<Rightarrow> Inr (ValueOf a # args)))"
  using expected_in_range[OF assms]
  by (cases a) (auto simp: Let_def literal_string_mismatch_def Value_Kind_ValueOf_VString)

lemma build_from_ok:
  "(variadic = None \<longrightarrow> i + length args \<le> length ps) \<Longrightarrow>
   list_all (\<lambda>(j, a). \<not> literal_string_mismatch ps variadic j a) (zip [i..<i + length args] args) \<Longrightarrow>
   buildFactoryCallArguments_from ps variadic i args = Inr (map ValueOf args)"
proof (induction args arbitrary: i)
  case Nil
  then show ?case by simp
next
  case (Cons a args)
  have r: "variadic = None \<longrightarrow> i < length ps" using Cons.prems(1) by auto
  have u: "[i..<i + length (a # args)] = i # [Suc i..<Suc i + length args]"
    using upt_conv_Cons[of i "i + length (a # args)"] by simp
  from Cons.prems(2) have m: "\<not> literal_string_mismatch ps variadic i a"
    and rest: "list_all (\<lambda>(j, a). \<not> literal_string_mismatch ps variadic j a)
       (zip [Suc i..<Suc i + length args] args)"
    unfolding u by simp_all
  have "buildFactoryCallArguments_from ps variadic (Suc i) args = Inr (map ValueOf args)"
    using Cons.IH[of "Suc i"] Cons.prems(1) rest by auto
  with m show ?case unfolding build_step[OF r] by simp
qed

lemma build_from_bad:
  "(variadic = None \<longrightarrow> i + length args \<le> length ps) \<Longrightarrow>
   \<not> list_all (\<lambda>(j, a). \<not> literal_string_mismatch ps variadic j a) (zip [i..<i + length args] args) \<Longrightarrow>
   \<exists>e. buildFactoryCallArguments_from ps variadic i args = Inl (Failed e)"
proof (induction args arbitrary: i)
  case Nil
  then show ?case by simp
next
  case (Cons a args)
  have r: "variadic = None \<longrightarrow> i < length ps" using Cons.prems(1) by auto
  have u: "[i..<i + length (a # args)] = i # [Suc i..<Suc i + length args]"
    using upt_conv_Cons[of i "i + length (a # args)"] by simp
  show ?case
  proof (cases "literal_string_mismatch ps variadic i a")
    case True
    then show ?thesis unfolding build_step[OF r] by simp
  next
    case False
    with Cons.prems(2) have "\<not> list_all (\<lambda>(j, a). \<not> literal_string_mismatch ps variadic j a)
       (zip [Suc i..<Suc i + length args] args)"
      unfolding u by simp
    with Cons.IH[of "Suc i"] Cons.prems(1)
    obtain e where "buildFactoryCallArguments_from ps variadic (Suc i) args = Inl (Failed e)" by auto
    with False show ?thesis unfolding build_step[OF r] by simp
  qed
qed

lemma NewType_func:
  "NewType (VFunc ps variadic outs code bound) args =
     newTypeFromFactoryFunction (VFunc ps variadic outs code bound) ps variadic outs args"
  by (simp add: NewType_def)

lemma newTypeFromFactoryFunction_valid:
  assumes "length outs = 1" "Kind (hd outs) \<noteq> KChan" "Kind (hd outs) \<noteq> KUnsafePointer"
    "arity_ok ps variadic (length args)" "no_literal_string_mismatch ps variadic args"
  shows "newTypeFromFactoryFunction f ps variadic outs args =
     Inr (Func_type \<lparr>factory = ValueOf f, factoryType = TFunc ps variadic outs,
                      factoryArguments = map ValueOf args\<rparr>)"
proof -
  have "buildFactoryCallArguments ps variadic args = Inr (map ValueOf args)"
    unfolding buildFactoryCallArguments_def
    using assms(4,5) build_from_ok[of variadic 0 args ps]
    by (cases variadic) (auto simp: arity_ok_simps no_literal_string_mismatch_def)
  moreover have "outs ! 0 = hd outs" using assms(1) by (cases outs) auto
  ultimately show ?thesis using assms
    by (cases variadic) (auto simp: newTypeFromFactoryFunction_def arity_ok_simps In_types_def)
qed

lemma newTypeFromFactoryFunction_invalid:
  assumes "\<not> (length outs = 1 \<and> Kind (hd outs) \<noteq> KChan \<and> Kind (hd outs) \<noteq> KUnsafePointer \<and>
    arity_ok ps variadic (length args) \<and> no_literal_string_mismatch ps variadic args)"
  shows "\<exists>e. newTypeFromFactoryFunction f ps variadic outs args = Inr (Invalid_type e)"
proof (cases "length outs = 1 \<and> Kind (hd outs) \<noteq> KChan \<and> Kind (hd outs) \<noteq> KUnsafePointer \<and>
    arity_ok ps variadic (length args)")
  case True
  with assms have bad: "\<not> no_literal_string_mismatch ps variadic args" by simp
  from True have "variadic = None \<longrightarrow> 0 + length args \<le> length ps"
    by (cases variadic) (auto simp: arity_ok_simps)
  from build_from_bad[OF this] bad
  obtain e where "buildFactoryCallArguments ps variadic args = Inl (Failed e)"
    by (auto simp: buildFactoryCallArguments_def no_literal_string_mismatch_def)
  moreover have "outs ! 0 = hd outs" using True by (cases outs) auto
  ultimately show ?thesis using True
    by (cases variadic)
      (auto simp: newTypeFromFactoryFunction_def newInvalidType_def arity_ok_simps In_types_def)
next
  case False
  have "length outs = 1 \<Longrightarrow> outs ! 0 = hd outs" by (cases outs) auto
  with False show ?thesis
    by (cases variadic)
      (auto simp: newTypeFromFactoryFunction_def newInvalidType_def arity_ok_simps In_types_def)
qed

text \<open>
  Claim C2, as amended.  For every function value with parameters \<open>ps\<close>, variadic
  element type \<open>variadic\<close> and results \<open>outs\<close>, and every argument list: \<^verbatim>\<open>NewType\<close>
  returns a descriptor, and the descriptor is valid exactly when the function has one
  result whose kind is neither channel nor unsafe pointer, the number of arguments is at
  least \<^verbatim>\<open>NumIn()\<close> for a variadic function and equal to \<^verbatim>\<open>NumIn()\<close> otherwise, and no
  literal string is passed for a parameter that is not of kind string.  An invalid
  descriptor fails on every \<^verbatim>\<open>Generate\<close>.
\<close>

theorem C2_NewType_valid_iff:
  "\<exists>tf. NewType (VFunc ps variadic outs code bound) args = Inr tf \<and>
     (IsValid tf \<longleftrightarrow>
        length outs = 1 \<and> Kind (hd outs) \<noteq> KChan \<and> Kind (hd outs) \<noteq> KUnsafePointer \<and>
        arity_ok ps variadic (length args) \<and> no_literal_string_mismatch ps variadic args) \<and>
     (\<not> IsValid tf \<longrightarrow> (\<exists>e. \<forall>E c getf s. Generate E c getf tf s = (Inl (Failed e), s)))"
proof (cases "length outs = 1 \<and> Kind (hd outs) \<noteq> KChan \<and> Kind (hd outs) \<noteq> KUnsafePointer \<and>
        arity_ok ps variadic (length args) \<and> no_literal_string_mismatch ps variadic args")
  case True
  then show ?thesis
    unfolding NewType_func using newTypeFromFactoryFunction_valid[of outs ps variadic args] by auto
next
  case False
  from newTypeFromFactoryFunction_invalid[OF False]
  obtain e where "newTypeFromFactoryFunction (VFunc ps variadic outs code bound)
      ps variadic outs args = Inr (Invalid_type e)" by blast
  with False show ?thesis unfolding NewType_func by auto
qed

text \<open>
  The theorem at \<^verbatim>\<open>f(a int, rest ...string)\<close> with four arguments, which is valid, and
  at \<^verbatim>\<open>g(a int)\<close> with no argument, which is not.
\<close>

theorem C2_witness:
  "NewType (VFunc [TInt] (Some TString) [TString] ''f'' [])
      [VInt 1, VString ''a'', VString ''b'', VString ''c''] =
     Inr (Func_type \<lparr>factory = Value (TFunc [TInt] (Some TString) [TString])
                          (VFunc [TInt] (Some TString) [TString] ''f'' []),
                      factoryType = TFunc [TInt] (Some TString) [TString],
                      factoryArguments = [Value TInt (VInt 1), Value TString (VString ''a''),
                        Value TString (VString ''b''), Value TString (VString ''c'')]\<rparr>) \<and>
   arity_ok [TInt] (Some TString) 4 \<and>
   no_literal_string_mismatch [TInt] (Some TString) [VInt 1, VString ''a'', VString ''b'', VString ''c''] \<and>
   (\<exists>e. NewType (VFunc [TInt] None [TString] ''g'' []) [] = Inr (Invalid_type e))"
proof -
  have a: "arity_ok [TInt] (Some TString) 4" by (simp add: arity_ok_simps)
  have b: "no_literal_string_mismatch [TInt] (Some TString) [VInt 1, VString ''a'', VString ''b'', VString ''c'']"
    by (simp add: no_literal_string_mismatch_def literal_string_mismatch_def expectedArgumentType_def upt_rec)
  have c: "\<not> arity_ok [TInt] None (length ([]::val list))" by (simp add: arity_ok_simps)
  have a': "arity_ok [TInt] (Some TString) (length [VInt 1, VString ''a'', VString ''b'', VString ''c''])"
    by (simp add: arity_ok_simps)
  from C2_NewType_valid_iff[of "[TInt]" "Some TString" "[TString]" "''f''" "[]"
      "[VInt 1, VString ''a'', VString ''b'', VString ''c'']"] a' b
  obtain tf where tf: "NewType (VFunc [TInt] (Some TString) [TString] ''f'' [])
      [VInt 1, VString ''a'', VString ''b'', VString ''c''] = Inr tf" "IsValid tf"
    by auto
  from C2_NewType_valid_iff[of "[TInt]" None "[TString]" "''g''" "[]" "[]"] c
  obtain tg where tg: "NewType (VFunc [TInt] None [TString] ''g'' []) [] = Inr tg" "\<not> IsValid tg"
    by auto
  from tg(2) obtain e where "tg = Invalid_type e" by (cases tg) auto
  with tg(1) have d: "\<exists>e. NewType (VFunc [TInt] None [TString] ''g'' []) [] = Inr (Invalid_type e)"
    by blast
  have e: "NewType (VFunc [TInt] (Some TString) [TString] ''f'' [])
      [VInt 1, VString ''a'', VString ''b'', VString ''c''] =
     Inr (Func_type \<lparr>factory = Value (TFunc [TInt] (Some TString) [TString])
                          (VFunc [TInt] (Some TString) [TString] ''f'' []),
                      factoryType = TFunc [TInt] (Some TString) [TString],
                      factoryArguments = [Value TInt (VInt 1), Value TString (VString ''a''),
                        Value TString (VString ''b''), Value TString (VString ''c'')]\<rparr>)"
    by (simp add: NewType_def newTypeFromFactoryFunction_def In_types_def
        buildFactoryCallArguments_def In_def ValueOf_def IsParameterOrTypeReference_def
        IsParameter_def IsTypeReference_def Let_def)
  from e a b d show ?thesis by blast
qed

text \<open>
  The claim as stated fails: \<^verbatim>\<open>f(a int, rest ...string)\<close> has two parameters, one
  argument is given, and the descriptor is invalid.
\<close>

theorem C2_counterexample:
  "NewType (VFunc [TInt] (Some TString) [TString] ''f'' []) [VInt 1] =
     Inr (Invalid_type (Errorf
       ''invalid number of input parameters for variadic function: got %d but expected at least %d''
       [D 1, D 2]))"
  by (simp add: NewType_def newTypeFromFactoryFunction_def In_types_def newInvalidType_def)

section \<open>The arguments of a factory are resolved in order\<close>

text \<open>
  The loops of the two factories resolve the arguments from left to right, each against
  the type of its parameter or field, and stop at the first error: the state they leave
  is the state left by \<open>resolve_all\<close> on a prefix of \<open>arg_pairs\<close>.
\<close>

lemma stops_in_here: "stops_in E c getf pairs s s"
  unfolding stops_in_def by (rule exI[of _ 0]) simp

lemma stops_in_Inl:
  "Resolve E c getf (fst p) (snd p) s = (Inl f, s') \<Longrightarrow> stops_in E c getf (p # rest) s s'"
  unfolding stops_in_def by (rule exI[of _ 1]) simp

lemma stops_in_Inr:
  assumes "Resolve E c getf (fst p) (snd p) s = (Inr v, s1)" "stops_in E c getf rest s1 s'"
  shows "stops_in E c getf (p # rest) s s'"
proof -
  from assms(2) obtain k where k: "s' = snd (resolve_all E c getf (take k rest) s1)"
    unfolding stops_in_def by blast
  show ?thesis unfolding stops_in_def
    by (rule exI[of _ "Suc k"]) (use assms(1) k in \<open>auto split: prod.splits option.splits\<close>)
qed

lemma stops_in_append1:
  "stops_in E c getf xs s s' \<Longrightarrow> stops_in E c getf (xs @ ys) s s'"
  unfolding stops_in_def
proof (erule exE)
  fix k assume "s' = snd (resolve_all E c getf (take k xs) s)"
  then show "\<exists>k. s' = snd (resolve_all E c getf (take k (xs @ ys)) s)"
    by (intro exI[of _ "min k (length xs)"]) (simp add: min_def)
qed

lemma resolve_all_append:
  "resolve_all E c getf (xs @ ys) s =
     (case resolve_all E c getf xs s of
        (None, s') \<Rightarrow> (None, s')
      | (Some vs, s') \<Rightarrow>
          (case resolve_all E c getf ys s' of
             (None, s'') \<Rightarrow> (None, s'')
           | (Some ws, s'') \<Rightarrow> (Some (vs @ ws), s'')))"
  by (induction xs arbitrary: s) (auto split: prod.splits sum.splits option.splits)

lemma stops_in_append2:
  assumes "resolve_all E c getf xs s = (Some vs, s1)" "stops_in E c getf ys s1 s'"
  shows "stops_in E c getf (xs @ ys) s s'"
proof -
  from assms(2) obtain k where k: "s' = snd (resolve_all E c getf (take k ys) s1)"
    unfolding stops_in_def by blast
  have "take (length xs + k) (xs @ ys) = xs @ take k ys" by simp
  then have "snd (resolve_all E c getf (take (length xs + k) (xs @ ys)) s) = s'"
    using assms(1) k by (simp add: resolve_all_append split: prod.splits option.splits)
  then show ?thesis unfolding stops_in_def by metis
qed

lemma generateFactoryArguments_from_pairs:
  "generateFactoryArguments_from E c getf t ps variadic i args s = (r, s') \<Longrightarrow>
     stops_in E c getf (zip args (drop i (In_types ps variadic))) s s' \<and>
     (\<forall>as. r = Inr as \<longrightarrow>
        (\<exists>vs. resolve_all E c getf (zip args (drop i (In_types ps variadic))) s = (Some vs, s')))"
proof (induction args arbitrary: i s r s')
  case Nil
  then show ?case by (auto simp: stops_in_here)
next
  case (Cons a args)
  let ?tys = "In_types ps variadic"
  show ?case
  proof (cases "In ps variadic i")
    case (Inl p)
    with Cons.prems show ?thesis by (auto simp: stops_in_here)
  next
    case (Inr expected)
    then have i: "i < length ?tys" "expected = ?tys ! i"
      by (auto simp: In_def split: if_splits)
    then have d: "drop i ?tys = expected # drop (Suc i) ?tys"
      by (simp add: Cons_nth_drop_Suc)
    obtain r1 s1 where R: "Resolve E c getf a expected s = (r1, s1)"
      by (cases "Resolve E c getf a expected s")
    show ?thesis
    proof (cases r1)
      case (Inl f)
      with Cons.prems Inr R have "s' = s1" "\<exists>f. r = Inl f"
        by (auto split: failure.splits err.splits)
      with R Inl show ?thesis by (auto simp: d intro!: stops_in_Inl)
    next
      case Inr2: (Inr v)
      obtain r2 s2 where G: "generateFactoryArguments_from E c getf t ps variadic (i + 1) args s1 = (r2, s2)"
        by (cases "generateFactoryArguments_from E c getf t ps variadic (i + 1) args s1")
      from Cons.prems Inr R Inr2 G have s': "s' = s2" and r: "r = (case r2 of Inl f \<Rightarrow> Inl f | Inr as \<Rightarrow> Inr (v # as))"
        by (auto split: sum.splits)
      from Cons.IH[OF G] have
        st: "stops_in E c getf (zip args (drop (Suc i) ?tys)) s1 s2" and
        ok: "\<And>as. r2 = Inr as \<Longrightarrow> \<exists>vs. resolve_all E c getf (zip args (drop (Suc i) ?tys)) s1 = (Some vs, s2)"
        by auto
      have "stops_in E c getf (zip (a # args) (drop i ?tys)) s s'"
        unfolding d s' using R Inr2 st by (auto intro: stops_in_Inr)
      moreover have "\<And>as. r = Inr as \<Longrightarrow> \<exists>vs. resolve_all E c getf (zip (a # args) (drop i ?tys)) s = (Some vs, s')"
        unfolding d s' using R Inr2 ok r by (auto split: sum.splits)
      ultimately show ?thesis by blast
    qed
  qed
qed

lemma generateVariadic_from_pairs:
  "generateVariadic_from E c getf t ps variadic et i args s = (r, s') \<Longrightarrow>
     stops_in E c getf (map (\<lambda>a. (a, et)) args) s s' \<and>
     (\<forall>as. r = Inr as \<longrightarrow>
        (\<exists>vs. resolve_all E c getf (map (\<lambda>a. (a, et)) args) s = (Some vs, s')))"
proof (induction args arbitrary: i s r s')
  case Nil
  then show ?case by (auto simp: stops_in_here)
next
  case (Cons a args)
  obtain r1 s1 where R: "Resolve E c getf a et s = (r1, s1)"
    by (cases "Resolve E c getf a et s")
  show ?case
  proof (cases r1)
    case (Inl f)
    with Cons.prems R have "s' = s1" "\<exists>f. r = Inl f"
      by (auto split: failure.splits err.splits)
    with R Inl show ?thesis by (auto intro!: stops_in_Inl)
  next
    case (Inr x)
    show ?thesis
    proof (cases "Set_val E et x")
      case (Inl p)
      with Cons.prems R Inr have "s' = s1" "\<exists>f. r = Inl f" by auto
      moreover have "stops_in E c getf (map (\<lambda>a. (a, et)) (a # args)) s s1"
        using R Inr stops_in_here[of E c getf "map (\<lambda>a. (a, et)) args" s1]
        by (auto intro: stops_in_Inr)
      ultimately show ?thesis by auto
    next
      case Inr2: (Inr v)
      obtain r2 s2 where G: "generateVariadic_from E c getf t ps variadic et (i + 1) args s1 = (r2, s2)"
        by (cases "generateVariadic_from E c getf t ps variadic et (i + 1) args s1")
      from Cons.prems R Inr Inr2 G have s': "s' = s2" and r: "r = (case r2 of Inl f \<Rightarrow> Inl f | Inr as \<Rightarrow> Inr (v # as))"
        by (auto split: sum.splits)
      from Cons.IH[OF G] have
        st: "stops_in E c getf (map (\<lambda>a. (a, et)) args) s1 s2" and
        ok: "\<And>as. r2 = Inr as \<Longrightarrow> \<exists>vs. resolve_all E c getf (map (\<lambda>a. (a, et)) args) s1 = (Some vs, s2)"
        by auto
      have "stops_in E c getf (map (\<lambda>a. (a, et)) (a # args)) s s'"
        unfolding s' using R Inr st by (auto intro: stops_in_Inr)
      moreover have "\<And>as. r = Inr as \<Longrightarrow> \<exists>vs. resolve_all E c getf (map (\<lambda>a. (a, et)) (a # args)) s = (Some vs, s')"
        unfolding s' using R Inr ok r by (auto split: sum.splits)
      ultimately show ?thesis by blast
    qed
  qed
qed

lemma generateTypeFields_from_pairs:
  assumes "structType t = TStruct name fs"
  shows "generateTypeFields_from E c getf t i args s = (r, s') \<Longrightarrow>
     stops_in E c getf (zip args (drop i (map snd fs))) s s' \<and>
     (\<forall>as. r = Inr as \<longrightarrow>
        (\<exists>vs. resolve_all E c getf (zip args (drop i (map snd fs))) s = (Some vs, s')))"
proof (induction args arbitrary: i s r s')
  case Nil
  then show ?case by (auto simp: stops_in_here)
next
  case (Cons a args)
  let ?tys = "map snd fs"
  show ?case
  proof (cases "Field_Type (structType t) i")
    case (Inl p)
    with Cons.prems show ?thesis by (auto simp: stops_in_here)
  next
    case (Inr expected)
    then have i: "i < length ?tys" "expected = ?tys ! i"
      using assms by (auto simp: Field_Type_def split: if_splits)
    have d: "drop i ?tys = expected # drop (Suc i) ?tys"
      unfolding i(2) using i(1) by (rule Cons_nth_drop_Suc[symmetric])
    obtain r1 s1 where R: "Resolve E c getf a expected s = (r1, s1)"
      by (cases "Resolve E c getf a expected s")
    show ?thesis
    proof (cases r1)
      case (Inl f)
      with Cons.prems Inr R have "s' = s1" "\<exists>f. r = Inl f"
        by (auto split: failure.splits err.splits)
      with R Inl show ?thesis by (auto simp: d intro!: stops_in_Inl)
    next
      case Inr2: (Inr v)
      obtain r2 s2 where G: "generateTypeFields_from E c getf t (i + 1) args s1 = (r2, s2)"
        by (cases "generateTypeFields_from E c getf t (i + 1) args s1")
      from Cons.prems Inr R Inr2 G have s': "s' = s2" and r: "r = (case r2 of Inl f \<Rightarrow> Inl f | Inr as \<Rightarrow> Inr (v # as))"
        by (auto split: sum.splits)
      from Cons.IH[OF G] have
        st: "stops_in E c getf (zip args (drop (Suc i) ?tys)) s1 s2" and
        ok: "\<And>as. r2 = Inr as \<Longrightarrow> \<exists>vs. resolve_all E c getf (zip args (drop (Suc i) ?tys)) s1 = (Some vs, s2)"
        by auto
      have "stops_in E c getf (zip (a # args) (drop i ?tys)) s s'"
        unfolding d s' using R Inr2 st by (auto intro: stops_in_Inr)
      moreover have "\<And>as. r = Inr as \<Longrightarrow> \<exists>vs. resolve_all E c getf (zip (a # args) (drop i ?tys)) s = (Some vs, s')"
        unfolding d s' using R Inr2 ok r by (auto split: sum.splits)
      ultimately show ?thesis by blast
    qed
  qed
qed

lemma generateFactoryArguments_pairs:
  assumes "factoryType t = TFunc ps variadic outs"
    "generateFactoryArguments E c getf t ps variadic s = (r, s')"
  shows "stops_in E c getf (arg_pairs (Func_type t)) s s' \<and>
     (\<forall>as. r = Inr as \<longrightarrow> (\<exists>vs. resolve_all E c getf (arg_pairs (Func_type t)) s = (Some vs, s')))"
proof (cases variadic)
  case None
  with assms generateFactoryArguments_from_pairs[of E c getf t ps None 0 "factoryArguments t" s r s']
  show ?thesis by (simp add: generateFactoryArguments_def In_types_def)
next
  case (Some et)
  let ?args = "factoryArguments t"
  show ?thesis
  proof (cases "length ps > length ?args")
    case True
    with assms Some show ?thesis
      by (auto simp: generateFactoryArguments_def generateVariadicFactoryArguments_def In_types_def
          stops_in_here)
  next
    case False
    let ?p1 = "zip (take (length ps) ?args) ps"
    let ?p2 = "map (\<lambda>a. (a, et)) (drop (length ps) ?args)"
    have pairs: "arg_pairs (Func_type t) = ?p1 @ ?p2" using assms(1) Some False by simp
    have z: "zip (take (length ps) ?args) (drop 0 (In_types ps (Some et))) = ?p1"
      using False by (simp add: In_types_def zip_append2)
    obtain r1 s1 where A: "generateFactoryArguments_from E c getf t ps (Some et) 0
        (take (length ps) ?args) s = (r1, s1)"
      by (cases "generateFactoryArguments_from E c getf t ps (Some et) 0 (take (length ps) ?args) s")
    from generateFactoryArguments_from_pairs[OF A] have
      st1: "stops_in E c getf ?p1 s s1" and
      ok1: "\<And>as. r1 = Inr as \<Longrightarrow> \<exists>vs. resolve_all E c getf ?p1 s = (Some vs, s1)"
      unfolding z by auto
    show ?thesis
    proof (cases r1)
      case (Inl f)
      with assms(2) Some False A have "s' = s1" "\<exists>f. r = Inl f"
        by (auto simp: generateFactoryArguments_def generateVariadicFactoryArguments_def In_types_def)
      with st1 show ?thesis unfolding pairs by (auto intro: stops_in_append1)
    next
      case (Inr as1)
      from ok1[OF Inr] obtain vs1 where v1: "resolve_all E c getf ?p1 s = (Some vs1, s1)" by blast
      obtain r2 s2 where B: "generateVariadic_from E c getf t ps (Some et) et 0
          (drop (length ps) ?args) s1 = (r2, s2)"
        by (cases "generateVariadic_from E c getf t ps (Some et) et 0 (drop (length ps) ?args) s1")
      from generateVariadic_from_pairs[OF B] have
        st2: "stops_in E c getf ?p2 s1 s2" and
        ok2: "\<And>as. r2 = Inr as \<Longrightarrow> \<exists>vs. resolve_all E c getf ?p2 s1 = (Some vs, s2)"
        by auto
      from assms(2) Some False A Inr B have s': "s' = s2" and r: "\<And>as. r = Inr as \<Longrightarrow> \<exists>bs. r2 = Inr bs"
        by (auto simp: generateFactoryArguments_def generateVariadicFactoryArguments_def In_types_def
            split: sum.splits)
      have "stops_in E c getf (?p1 @ ?p2) s s'"
        unfolding s' using v1 st2 by (rule stops_in_append2)
      moreover have "\<And>as. r = Inr as \<Longrightarrow> \<exists>vs. resolve_all E c getf (?p1 @ ?p2) s = (Some vs, s')"
      proof -
        fix as assume "r = Inr as"
        from r[OF this] obtain bs where "r2 = Inr bs" by blast
        from ok2[OF this] obtain vs2 where "resolve_all E c getf ?p2 s1 = (Some vs2, s2)" by blast
        with v1 show "\<exists>vs. resolve_all E c getf (?p1 @ ?p2) s = (Some vs, s')"
          unfolding s' by (simp add: resolve_all_append)
      qed
      ultimately show ?thesis unfolding pairs by blast
    qed
  qed
qed

lemma generateTypeFields_from_non_struct:
  "(\<And>name fs. structType t \<noteq> TStruct name fs) \<Longrightarrow>
   generateTypeFields_from E c getf t i args s = (r, s') \<Longrightarrow> s' = s"
  by (cases args; cases "structType t") (auto simp: Field_Type_def)

lemma Generate_pairs:
  assumes "Generate E c getf tf s = (r, s')"
  shows "\<exists>s1. stops_in E c getf (arg_pairs tf) s s1 \<and> typeCache s' = typeCache s1 \<and>
     (\<forall>v. r = Inr v \<longrightarrow> (\<exists>vs. resolve_all E c getf (arg_pairs tf) s = (Some vs, s1)))"
proof (cases tf)
  case (Func_type t)
  show ?thesis
  proof (cases "factoryType t")
    case (TFunc ps variadic outs)
    obtain r1 s1 where A: "generateFactoryArguments E c getf t ps variadic s = (r1, s1)"
      by (cases "generateFactoryArguments E c getf t ps variadic s")
    from assms Func_type TFunc A have "s' = s1" "\<And>v. r = Inr v \<Longrightarrow> \<exists>as. r1 = Inr as"
      by (auto simp: typeFactory_Generate_def split: sum.splits list.splits)
    with generateFactoryArguments_pairs[OF TFunc A] show ?thesis
      unfolding Func_type by blast
  qed (use assms Func_type in \<open>auto simp: typeFactory_Generate_def intro!: exI[of _ s'] stops_in_here\<close>)
next
  case (Struct_type t)
  obtain r1 s1 where A: "generateTypeFields_from E c getf t 0 (structFields t) s = (r1, s1)"
    by (cases "generateTypeFields_from E c getf t 0 (structFields t) s")
  have c: "typeCache s' = typeCache s1" and r: "\<And>v. r = Inr v \<Longrightarrow> \<exists>as. r1 = Inr as"
  proof -
    show "typeCache s' = typeCache s1"
    proof (cases r1)
      case (Inl f)
      with assms Struct_type A show ?thesis
        by (simp add: structType_Generate_def generateTypeFields_def)
    next
      case (Inr args)
      obtain a s1' where N: "New (structType t) s1 = (a, s1')" by (cases "New (structType t) s1")
      obtain r2 s2 where B: "Fields_Set E (structType t) a 0 args s1' = (r2, s2)"
        by (cases "Fields_Set E (structType t) a 0 args s1'")
      from assms Struct_type A Inr N B have "s' = s2"
        by (auto simp: structType_Generate_def generateTypeFields_def split: sum.splits)
      moreover from N have "typeCache s1' = typeCache s1"
        by (auto simp: New_def split: if_splits)
      ultimately show ?thesis using Fields_Set_same[OF B] by simp
    qed
    show "\<And>v. r = Inr v \<Longrightarrow> \<exists>as. r1 = Inr as"
      using assms Struct_type A
      by (auto simp: structType_Generate_def generateTypeFields_def split: sum.splits prod.splits)
  qed
  show ?thesis
  proof (cases "\<exists>name fs. structType t = TStruct name fs")
    case True
    then obtain name fs where st: "structType t = TStruct name fs" by blast
    from generateTypeFields_from_pairs[OF st A] c r st show ?thesis
      unfolding Struct_type by auto
  next
    case False
    then have ns: "\<And>name fs. structType t \<noteq> TStruct name fs" by blast
    from generateTypeFields_from_non_struct[OF ns A] have "s1 = s" .
    moreover from False have "arg_pairs (Struct_type t) = []"
      by (cases "structType t") auto
    ultimately show ?thesis using c unfolding Struct_type
      by (auto intro!: exI[of _ s] stops_in_here)
  qed
qed (use assms in \<open>auto intro!: exI[of _ s] stops_in_here\<close>)

lemma resolve_all_ext:
  assumes "ext_getter c getf"
  shows "resolve_all E c getf ps s = (r, s') \<Longrightarrow> ext c s s'"
proof (induction ps arbitrary: s r s')
  case Nil
  then show ?case by (simp add: ext_refl)
next
  case (Cons p ps)
  obtain r1 s1 where R: "Resolve E c getf (fst p) (snd p) s = (r1, s1)"
    by (cases "Resolve E c getf (fst p) (snd p) s")
  have e1: "ext c s s1" using Resolve_ext[OF assms R] .
  show ?case
  proof (cases r1)
    case (Inl f)
    with Cons.prems R e1 show ?thesis by simp
  next
    case (Inr v)
    obtain r2 s2 where G: "resolve_all E c getf ps s1 = (r2, s2)"
      by (cases "resolve_all E c getf ps s1")
    with Cons.prems R Inr have "s' = s2" by (auto split: option.splits)
    with Cons.IH[OF G] e1 show ?thesis by (auto intro: ext_trans)
  qed
qed

section \<open>The struct factory\<close>

















lemma arg_val_ValueOf: "arg_val (ValueOf a) = a"
  by (cases a) (auto simp: ValueOf_def)












section \<open>C7: struct assembly\<close>



section \<open>C10: what a struct factory allocates\<close>






text \<open>
  The claim as stated fails for the struct type \<^verbatim>\<open>LoggerProvider\<close>, which has no fields,
  registered with the pointer \<^verbatim>\<open>&LoggerProvider{}\<close>: \<^verbatim>\<open>Generate\<close> allocates nothing and
  returns the template, and a second call returns the same pointer.
\<close>

theorem C10_counterexample:
  "NewStructType (VPtr LoggerProvider (Some ZeroBase)) [] =
     Inr (Struct_type \<lparr>structType = LoggerProvider, structFields = []\<rparr>) \<and>
   Generate demo_env (NewContainer [] Map.empty) (get 0 demo_env (NewContainer [] Map.empty))
     (Struct_type \<lparr>structType = LoggerProvider, structFields = []\<rparr>) new_state =
     (Inr (VPtr LoggerProvider (Some ZeroBase)), new_state) \<and>
   fst (Generate demo_env (NewContainer [] Map.empty) (get 0 demo_env (NewContainer [] Map.empty))
     (Struct_type \<lparr>structType = LoggerProvider, structFields = []\<rparr>)
     (snd (Generate demo_env (NewContainer [] Map.empty) (get 0 demo_env (NewContainer [] Map.empty))
        (Struct_type \<lparr>structType = LoggerProvider, structFields = []\<rparr>) new_state))) =
     Inr (VPtr LoggerProvider (Some ZeroBase))"
  by (simp add: NewStructType_def newTypeFromStruct_def LoggerProvider_def
      structType_Generate_def generateTypeFields_def New_def)

section \<open>C9: when the types of literal arguments are checked\<close>







section \<open>C1: singletons\<close>

lemma get_cached: "typeCache s typeID = Some v \<Longrightarrow> get m E c typeID s = (Inr (v, True), s)"
  by (cases m) simp_all

lemma get_success_cached:
  "get n E c typeID s = (Inr (inst, True), s') \<Longrightarrow> typeCache s' typeID = Some inst"
  by (cases n) (auto split: option.splits prod.splits sum.splits failure.splits)

lemma Get_success_cached:
  assumes "Get n E c typeID s = (Inr v, s')"
  shows "typeCache s' typeID = Some v"
proof -
  obtain r s0 where g: "get n E c typeID s = (r, s0)" by (cases "get n E c typeID s")
  with assms have "r = Inr (v, True)" "s0 = s'"
    by (auto simp: Get_def split: sum.splits prod.splits if_splits)
  with g show ?thesis by (auto dest: get_success_cached)
qed

lemma demo_simps:
  "IsTypeReference ''@B''" "IsTypeReference ''@missing''"
  "NewTypeID ''@B'' = \<lparr>ID = ''B'', Raw = ''@B'', FuncReferenceMethod = [], IsOptional = False, IsFuncReference = False\<rparr>"
  "NewTypeID ''@missing'' = \<lparr>ID = ''missing'', Raw = ''@missing'', FuncReferenceMethod = [], IsOptional = False, IsFuncReference = False\<rparr>"
  by (simp_all add: IsTypeReference_def NewTypeID_def Let_def)

lemma Get_P:
  "Get 2 demo_env (NewContainer demo_registry Map.empty) ''P'' new_state =
     (Inr (VPtr Person (Some (Addr 0))),
      \<lparr>typeCache = [''B'' \<mapsto> VString ''bob'', ''P'' \<mapsto> VPtr Person (Some (Addr 0))],
       reflectionCache = [''string'' \<mapsto> TString],
       heap = [VStruct ''Person'' [(''Name'', TString), (''Age'', TInt)] [VString ''bob'', VInt 0]]\<rparr>)"
  by (simp add: Get_def NewContainer_def demo_registry_def new_state_def numeral_2_eq_2
      structType_Generate_def generateTypeFields_def Field_Type_def Person_def Resolve_def
      IsParameterOrTypeReference_def demo_simps resolveTypeReference_def Let_def
      AssignableTo_def New_Elem_Set_def ValueOf_def IsExported_def GetType_def demo_env_def
      New_def store_field_def)

text \<open>
  Claim C1.  For every container and every type ID: if a call of \<^verbatim>\<open>Get\<close> returns the
  instance \<open>v\<close>, then in every state reached later on the same container, \<^verbatim>\<open>Get\<close>
  with the same ID returns \<open>v\<close> again, with any fuel, and leaves the state as it is.
\<close>

theorem C1_singleton:
  "Get n E c typeID s = (Inr v, s1) \<Longrightarrow> later E c s1 s2 \<Longrightarrow>
   Get m E c typeID s2 = (Inr v, s2)"
proof -
  assume g: "Get n E c typeID s = (Inr v, s1)" and l: "later E c s1 s2"
  from Get_success_cached[OF g] have "typeCache s1 typeID = Some v" .
  moreover from later_ext[OF l] have "typeCache s1 \<subseteq>\<^sub>m typeCache s2" by (simp add: ext_def)
  ultimately have "typeCache s2 typeID = Some v"
    by (auto simp: map_le_def dom_def)
  then show ?thesis by (simp add: Get_def get_cached)
qed

text \<open>The theorem at the ID \<^verbatim>\<open>P\<close> of the registry above.\<close>

theorem C1_witness:
  "\<exists>s1. Get 2 demo_env (NewContainer demo_registry Map.empty) ''P'' new_state =
       (Inr (VPtr Person (Some (Addr 0))), s1) \<and>
     later demo_env (NewContainer demo_registry Map.empty) s1 s1 \<and>
     Get 0 demo_env (NewContainer demo_registry Map.empty) ''P'' s1 = (Inr (VPtr Person (Some (Addr 0))), s1)"
  using C1_singleton[OF Get_P later_now, of 0] Get_P later_now by blast

section \<open>C6: errors of Generate\<close>

text \<open>
  A failed \<^verbatim>\<open>get\<close> stores nothing under its own ID.  The entries it leaves are
  those of nested calls, and no nested call can build an ID that is still under
  construction: its factory would need an instance of itself.
\<close>

lemma Resolve_no_ref:
  "ref_id a = None \<Longrightarrow> Resolve E c getf a t s = (r, s') \<Longrightarrow>
     s' = s \<and> Resolve E c getf' a t w = (r, w)"
  by (auto simp: ref_id_def Resolve_def IsParameterOrTypeReference_def
      split: if_splits val.splits)

lemma GetType_typeCache: "GetType E obj s = (r, s') \<Longrightarrow> typeCache s' = typeCache s"
  by (auto simp: GetType_def Let_def split: option.splits)

lemma GetType_replay:
  assumes "GetType E obj s = (Inr ity, u)" "reflectionCache u \<subseteq>\<^sub>m reflectionCache w"
  shows "GetType E obj w = (Inr ity, w)"
proof -
  from assms(1) obtain ty where ty: "TypeOf obj = Some ty"
    and c: "reflectionCache u (Type_String E ty) = Some ity"
    by (auto simp: GetType_def Let_def split: option.splits)
  from c assms(2) have "reflectionCache w (Type_String E ty) = Some ity"
    by (auto simp: map_le_def dom_def)
  with ty show ?thesis by (simp add: GetType_def)
qed

lemma resolveTypeReference_typeCache:
  "resolveTypeReference E getf p t s = (r, s') \<Longrightarrow>
     typeCache s' = typeCache (snd (getf (ID (NewTypeID p)) s))"
  by (auto simp: resolveTypeReference_def Let_def dest: GetType_typeCache
      split: sum.splits prod.splits if_splits option.splits)

lemma resolveTypeReference_Inr:
  "resolveTypeReference E getf p t s = (Inr v, s') \<Longrightarrow>
     \<exists>iv. fst (getf (ID (NewTypeID p)) s) = Inr iv"
  by (auto simp: resolveTypeReference_def Let_def
      split: sum.splits prod.splits if_splits option.splits)

lemma resolveTypeReference_replay:
  assumes R: "resolveTypeReference E getf p t s = (Inr v, u)"
    and g: "getf (ID (NewTypeID p)) s = (Inr (inst, d), s1)"
    and g': "getf' (ID (NewTypeID p)) w = (Inr (inst, d), w)"
    and rc: "reflectionCache u \<subseteq>\<^sub>m reflectionCache w"
  shows "resolveTypeReference E getf' p t w = (Inr v, w)"
proof (cases "d \<and> \<not> IsFuncReference (NewTypeID p)")
  case False
  with R g g' show ?thesis
    by (auto simp: resolveTypeReference_def Let_def split: sum.splits if_splits)
next
  case True
  with R g obtain ity where G: "GetType E inst s1 = (Inr ity, u)"
    and rest: "AssignableTo E ity t" "New_Elem_Set E t (ValueOf inst) = Inr v"
    by (auto simp: resolveTypeReference_def Let_def split: sum.splits prod.splits if_splits)
  from GetType_replay[OF G rc] True g' rest show ?thesis
    by (simp add: resolveTypeReference_def Let_def)
qed

lemma Resolve_ref:
  assumes "ref_id a = Some z" "Resolve E c getf a t s = (r, s')"
  shows "typeCache s' = typeCache (snd (getf z s)) \<and>
         (\<forall>v. r = Inr v \<longrightarrow> (\<exists>iv. fst (getf z s) = Inr iv))"
proof -
  from assms(1) obtain p where p: "Value_Kind a = KString" "arg_val a = VString p"
    "IsTypeReference p" "z = ID (NewTypeID p)"
    by (auto simp: ref_id_def split: if_splits val.splits)
  with assms(2) have R: "resolveTypeReference E getf p t s = (r, s')"
    by (simp add: Resolve_def IsParameterOrTypeReference_def)
  from resolveTypeReference_typeCache[OF R] resolveTypeReference_Inr[of E getf p t s _ s'] R p(4)
  show ?thesis by auto
qed

lemma get_Inr_cases:
  assumes "get m E c z s = (Inr (inst, d), u)"
  shows "(d \<and> typeCache u z = Some inst) \<or>
         (\<not> d \<and> inst = VNil \<and> map_of (TypeRegistry c) z = None \<and> typeCache u z = None)"
  using assms
  by (cases m) (auto split: option.splits prod.splits sum.splits failure.splits)

lemma Resolve_replay:
  assumes R: "Resolve E c (get m E c) a t s = (Inr v, u)"
    and e: "ext c u w"
  shows "Resolve E c (get k E c) a t w = (Inr v, w)"
proof (cases "ref_id a")
  case None
  from Resolve_no_ref[OF None R] show ?thesis by simp
next
  case (Some z)
  from Some obtain p where p: "Value_Kind a = KString" "arg_val a = VString p"
    "IsTypeReference p" "z = ID (NewTypeID p)"
    by (auto simp: ref_id_def split: if_splits val.splits)
  with R have RR: "resolveTypeReference E (get m E c) p t s = (Inr v, u)"
    by (simp add: Resolve_def IsParameterOrTypeReference_def)
  from resolveTypeReference_Inr[OF RR] obtain iv where iv: "fst (get m E c z s) = Inr iv"
    using p(4) by auto
  obtain inst d where ivd: "iv = (inst, d)" by (cases iv)
  obtain s1 where g: "get m E c z s = (Inr (inst, d), s1)"
    using iv ivd by (cases "get m E c z s") simp
  from resolveTypeReference_typeCache[OF RR] g p(4) have tc: "typeCache u = typeCache s1" by simp
  have g': "get k E c z w = (Inr (inst, d), w)"
  proof (cases d)
    case True
    with get_Inr_cases[OF g] tc have "typeCache u z = Some inst" by simp
    with e have "typeCache w z = Some inst" by (auto simp: ext_def map_le_def dom_def)
    with True show ?thesis by (simp add: get_cached)
  next
    case False
    with get_Inr_cases[OF g] tc have n: "inst = VNil" "map_of (TypeRegistry c) z = None"
      "typeCache u z = None" by auto
    with e have "typeCache w z = None" by (auto simp: ext_def dom_def)
    with False n show ?thesis by (cases k) simp_all
  qed
  from e have rc: "reflectionCache u \<subseteq>\<^sub>m reflectionCache w" by (simp add: ext_def)
  from resolveTypeReference_replay[where getf="get m E c" and getf'="get k E c",
      OF RR g[unfolded p(4)] g'[unfolded p(4)] rc]
  show ?thesis using p by (simp add: Resolve_def IsParameterOrTypeReference_def)
qed

lemma resolve_all_replay:
  assumes e: "ext c u w"
  shows "resolve_all E c (get m E c) pre s = (Some vs, u) \<Longrightarrow>
     resolve_all E c (get k E c) pre w = (Some vs, w)"
proof (induction pre arbitrary: s vs)
  case Nil
  then show ?case by simp
next
  case (Cons p pre)
  from Cons.prems obtain v s1 vs' where
    R: "Resolve E c (get m E c) (fst p) (snd p) s = (Inr v, s1)" and
    A: "resolve_all E c (get m E c) pre s1 = (Some vs', u)" and vs: "vs = v # vs'"
    by (auto split: prod.splits sum.splits option.splits)
  have "ext c s1 u" using resolve_all_ext[OF ext_getter_get A] .
  then have "ext c s1 w" using e by (rule ext_trans)
  from Resolve_replay[OF R this] Cons.IH[OF A] vs show ?case by simp
qed

lemma needs_in_mono:
  "needs_in E c s x X \<Longrightarrow> ext c s s' \<Longrightarrow> X \<subseteq> Y \<Longrightarrow> needs_in E c s' x Y"
  unfolding needs_in_def by (meson ext_trans subsetD)

lemma closed_needs_never_built:
  assumes "\<forall>x\<in>X. map_of (TypeRegistry c) x \<noteq> None \<and> typeCache w x = None \<and> needs_in E c w x X"
  shows "\<forall>x\<in>X. \<forall>iv. fst (get k E c x w) \<noteq> Inr iv"
proof (induction k)
  case 0
  with assms show ?case by (auto split: option.splits)
next
  case (Suc k)
  show ?case
  proof (intro ballI allI notI)
    fix x iv assume x: "x \<in> X" and g: "fst (get (Suc k) E c x w) = Inr iv"
    from assms x obtain gen where gen: "map_of (TypeRegistry c) x = Some gen"
      and un: "typeCache w x = None" and nd: "needs_in E c w x X" by auto
    from g gen un obtain v where "fst (Generate E c (get k E c) gen w) = Inr v"
      by (auto split: prod.splits sum.splits failure.splits)
    with nd gen have "\<exists>x'\<in>X. \<exists>iv. fst (get k E c x' w) = Inr iv"
      unfolding needs_in_def using ext_refl by blast
    with Suc show False by blast
  qed
qed

lemma resolve_all_keeps:
  assumes IH: "\<And>y s X r s'. pending E c s X y \<Longrightarrow>
        get m E c y s = (r, s') \<Longrightarrow> \<forall>x\<in>X. typeCache s' x = None"
    and reg: "map_of (TypeRegistry c) y = Some g"
    and y: "y \<in> X"
  shows "arg_pairs g = pre @ mid @ post \<Longrightarrow>
     resolve_all E c (get m E c) pre s0 = (Some vs, u) \<Longrightarrow>
     (\<forall>x\<in>X. map_of (TypeRegistry c) x \<noteq> None \<and> typeCache u x = None) \<Longrightarrow>
     (\<forall>x\<in>X. x \<noteq> y \<longrightarrow> needs_in E c u x X) \<Longrightarrow>
     \<forall>x\<in>X. typeCache (snd (resolve_all E c (get m E c) mid u)) x = None"
proof (induction mid arbitrary: pre u vs)
  case Nil
  then show ?case by simp
next
  case (Cons p mid)
  obtain r1 u1 where R: "Resolve E c (get m E c) (fst p) (snd p) u = (r1, u1)"
    by (cases "Resolve E c (get m E c) (fst p) (snd p) u")
  have e1: "ext c u u1" using Resolve_ext[OF ext_getter_get R] .
  have keep: "\<forall>x\<in>X. typeCache u1 x = None"
  proof (cases "ref_id (fst p)")
    case None
    from Resolve_no_ref[OF None R] Cons.prems(3) show ?thesis by simp
  next
    case (Some z)
    from Resolve_ref[OF Some R] have u1: "typeCache u1 = typeCache (snd (get m E c z u))"
      by simp
    have ny: "needs_in E c u y (insert z X)"
      unfolding needs_in_def
    proof (intro allI impI)
      fix w k g' v
      assume a: "ext c u w \<and> map_of (TypeRegistry c) y = Some g' \<and>
        fst (Generate E c (get k E c) g' w) = Inr v"
      with reg have g': "g' = g" by simp
      obtain s' where G: "Generate E c (get k E c) g w = (Inr v, s')"
        using a g' by (cases "Generate E c (get k E c) g w") auto
      from Generate_pairs[OF G] obtain ws w1 where
        "resolve_all E c (get k E c) (arg_pairs g) w = (Some ws, w1)" by blast
      then have all: "resolve_all E c (get k E c) (pre @ p # (mid @ post)) w = (Some ws, w1)"
        using Cons.prems(1) by simp
      have pre: "resolve_all E c (get k E c) pre w = (Some vs, w)"
        using resolve_all_replay[OF _ Cons.prems(2)] a by blast
      from all pre obtain v' w' where
        "Resolve E c (get k E c) (fst p) (snd p) w = (Inr v', w')"
        by (auto simp: resolve_all_append split: prod.splits sum.splits option.splits)
      from Resolve_ref[OF Some this] have "\<exists>iv. fst (get k E c z w) = Inr iv" by simp
      then show "\<exists>x'\<in>insert z X. \<exists>iv. fst (get k E c x' w) = Inr iv" by blast
    qed
    have "pending E c u X z"
      unfolding pending_def
    proof (intro ballI conjI)
      fix x assume x: "x \<in> X"
      from Cons.prems(3) x show "map_of (TypeRegistry c) x \<noteq> None" "typeCache u x = None" by auto
      show "needs_in E c u x (insert z X)"
      proof (cases "x = y")
        case True
        with ny show ?thesis by simp
      next
        case False
        with Cons.prems(4) x have "needs_in E c u x X" by simp
        then show ?thesis by (rule needs_in_mono) (auto simp: ext_refl)
      qed
    qed
    from IH[OF this, of "fst (get m E c z u)" "snd (get m E c z u)"] u1 show ?thesis by simp
  qed
  show ?case
  proof (cases r1)
    case (Inl f)
    with R keep show ?thesis by simp
  next
    case (Inr v)
    have a1: "arg_pairs g = (pre @ [p]) @ mid @ post" using Cons.prems(1) by simp
    have a2: "resolve_all E c (get m E c) (pre @ [p]) s0 = (Some (vs @ [v]), u1)"
      using Cons.prems(2) R Inr by (simp add: resolve_all_append)
    have a4: "\<forall>x\<in>X. map_of (TypeRegistry c) x \<noteq> None \<and> typeCache u1 x = None"
      using Cons.prems(3) keep by simp
    have a5: "\<forall>x\<in>X. x \<noteq> y \<longrightarrow> needs_in E c u1 x X"
      using Cons.prems(4) e1 by (auto intro: needs_in_mono)
    from Cons.IH[OF a1 a2 a4 a5]
    have "\<forall>x\<in>X. typeCache (snd (resolve_all E c (get m E c) mid u1)) x = None" .
    moreover have "snd (resolve_all E c (get m E c) (p # mid) u) =
        snd (resolve_all E c (get m E c) mid u1)"
      using R Inr by (simp split: prod.splits option.splits)
    ultimately show ?thesis by simp
  qed
qed

lemma Generate_keeps:
  assumes IH: "\<And>y s X r s'. pending E c s X y \<Longrightarrow>
        get m E c y s = (r, s') \<Longrightarrow> \<forall>x\<in>X. typeCache s' x = None"
    and reg: "map_of (TypeRegistry c) y = Some g"
    and y: "y \<in> X"
    and un: "\<forall>x\<in>X. map_of (TypeRegistry c) x \<noteq> None \<and> typeCache s x = None"
    and nd: "\<forall>x\<in>X. x \<noteq> y \<longrightarrow> needs_in E c s x X"
    and G: "Generate E c (get m E c) g s = (r, s')"
  shows "\<forall>x\<in>X. typeCache s' x = None"
proof -
  from Generate_pairs[OF G] obtain s1 where
    st: "stops_in E c (get m E c) (arg_pairs g) s s1" and c: "typeCache s' = typeCache s1"
    by blast
  from st obtain k where k: "s1 = snd (resolve_all E c (get m E c) (take k (arg_pairs g)) s)"
    unfolding stops_in_def by blast
  have a1: "arg_pairs g = [] @ take k (arg_pairs g) @ drop k (arg_pairs g)" by simp
  have a2: "resolve_all E c (get m E c) [] s = (Some [], s)" by simp
  from resolve_all_keeps[where pre="[]", OF IH reg y a1 a2 un nd] k c
  show ?thesis by simp
qed

lemma get_keeps_pending:
  "pending E c s X y \<Longrightarrow> get m E c y s = (r, s') \<Longrightarrow> \<forall>x\<in>X. typeCache s' x = None"
proof (induction m arbitrary: y s X r s')
  case 0
  then have "s' = s" by (auto split: option.splits)
  with "0.prems"(1) show ?case by (simp add: pending_def)
next
  case (Suc m)
  have un: "\<forall>x\<in>X. map_of (TypeRegistry c) x \<noteq> None \<and> typeCache s x = None"
    using Suc.prems(1) by (simp add: pending_def)
  show ?case
  proof (cases "typeCache s y = None \<and> map_of (TypeRegistry c) y \<noteq> None")
    case False
    with Suc.prems(2) have "s' = s" by (auto split: option.splits)
    with un show ?thesis by simp
  next
    case True
    then obtain g where uy: "typeCache s y = None" and reg: "map_of (TypeRegistry c) y = Some g"
      by auto
    obtain r1 s1 where G: "Generate E c (get m E c) g s = (r1, s1)"
      by (cases "Generate E c (get m E c) g s")
    have un': "\<forall>x\<in>insert y X. map_of (TypeRegistry c) x \<noteq> None \<and> typeCache s x = None"
      using un uy reg by simp
    have nd': "\<forall>x\<in>insert y X. x \<noteq> y \<longrightarrow> needs_in E c s x (insert y X)"
      using Suc.prems(1) by (simp add: pending_def)
    have keep: "\<forall>x\<in>insert y X. typeCache s1 x = None"
      by (rule Generate_keeps[where X="insert y X" and y=y, OF Suc.IH reg _ un' nd' G])
         simp_all
    show ?thesis
    proof (cases r1)
      case (Inl f)
      with Suc.prems(2) uy reg G have "s' = s1" by (auto split: failure.splits)
      with keep show ?thesis by simp
    next
      case (Inr inst)
      with Suc.prems(2) uy reg G
      have s': "s' = s1\<lparr>typeCache := (typeCache s1)(y \<mapsto> inst)\<rparr>" and r: "r = Inr (inst, True)"
        by auto
      have "y \<notin> X"
      proof
        assume yX: "y \<in> X"
        then have "insert y X = X" by auto
        with Suc.prems(1) have
          "\<forall>x\<in>X. map_of (TypeRegistry c) x \<noteq> None \<and> typeCache s x = None \<and> needs_in E c s x X"
          by (simp add: pending_def)
        from closed_needs_never_built[OF this, of "Suc m"] yX Suc.prems(2) r show False
          by (metis fst_conv)
      qed
      with keep show ?thesis unfolding s' by auto
    qed
  qed
qed

lemma get_failure_not_cached:
  assumes un: "typeCache s y = None"
    and g: "get m E c y s = (Inl f, s')"
  shows "typeCache s' y = None"
proof (cases m)
  case 0
  with g un have "s' = s" by (auto split: option.splits)
  with un show ?thesis by simp
next
  case (Suc k)
  show ?thesis
  proof (cases "map_of (TypeRegistry c) y")
    case None
    with g un Suc show ?thesis by simp
  next
    case (Some gen)
    obtain r1 s1 where G: "Generate E c (get k E c) gen s = (r1, s1)"
      by (cases "Generate E c (get k E c) gen s")
    with g un Some Suc have s': "s' = s1"
      by (auto split: sum.splits failure.splits)
    have "\<forall>x\<in>{y}. typeCache s1 x = None"
      by (rule Generate_keeps[where X="{y}" and y=y, OF get_keeps_pending Some _ _ _ G])
         (use un Some in auto)
    with s' show ?thesis by simp
  qed
qed


lemma Generate_A:
  "Generate demo_env (NewContainer demo_registry Map.empty)
      (get 1 demo_env (NewContainer demo_registry Map.empty))
      (Struct_type \<lparr>structType = Person,
          structFields = [Value TString (VString ''@B''), Value TString (VString ''@missing'')]\<rparr>)
      new_state =
     (Inl (Failed (UnknownTypeReferenceError ''missing''
        (''the referenced type '' @ [CHR 0x22] @ ''@%s'' @ [CHR 0x22] @ '' has not been defined'')
        [S ''missing''])),
      \<lparr>typeCache = [''B'' \<mapsto> VString ''bob''], reflectionCache = [''string'' \<mapsto> TString],
       heap = []\<rparr>)"
  by (simp add: NewContainer_def demo_registry_def new_state_def
      structType_Generate_def generateTypeFields_def Field_Type_def Person_def Resolve_def
      IsParameterOrTypeReference_def demo_simps resolveTypeReference_def Let_def
      AssignableTo_def New_Elem_Set_def ValueOf_def IsExported_def newUnknownTypeReferenceError_def
      GetType_def demo_env_def)

text \<open>
  Claim C6, as amended.  For every registered ID that is not in the cache: when
  \<^verbatim>\<open>Generate\<close> of its descriptor returns an error, \<^verbatim>\<open>Get\<close> returns the error
  "goldi: error while generating type" with the ID and that error, in the state
  \<^verbatim>\<open>Generate\<close> left.  Whenever \<^verbatim>\<open>Get\<close> fails, with any fuel, there is no entry for the
  ID in the cache afterwards, and the entries of the cache before the call are kept;
  the cache can hold new entries for dependencies built before the failure.  When
  \<^verbatim>\<open>Generate\<close> returns an instance, \<^verbatim>\<open>Get\<close> returns it and stores it under the ID.
\<close>

theorem C6_generate_error:
  "typeCache s typeID = None \<Longrightarrow> map_of (TypeRegistry c) typeID = Some generator \<Longrightarrow>
   (\<forall>e s'. Generate E c (get n E c) generator s = (Inl (Failed e), s') \<longrightarrow>
      Get (Suc n) E c typeID s =
        (Inl (Failed (Errorf ''goldi: error while generating type %q: %s'' [S typeID, Er e])), s')) \<and>
   (\<forall>m f s'. Get m E c typeID s = (Inl f, s') \<longrightarrow>
      typeCache s' typeID = None \<and> typeCache s \<subseteq>\<^sub>m typeCache s') \<and>
   (\<forall>instance s'. Generate E c (get n E c) generator s = (Inr instance, s') \<longrightarrow>
      Get (Suc n) E c typeID s =
        (Inr instance, s'\<lparr>typeCache := (typeCache s')(typeID \<mapsto> instance)\<rparr>))"
proof -
  assume un: "typeCache s typeID = None" and reg: "map_of (TypeRegistry c) typeID = Some generator"
  have "\<And>m f s'. Get m E c typeID s = (Inl f, s') \<Longrightarrow>
      typeCache s' typeID = None \<and> typeCache s \<subseteq>\<^sub>m typeCache s'"
  proof -
    fix m f s' assume G: "Get m E c typeID s = (Inl f, s')"
    obtain r0 where g: "get m E c typeID s = (r0, s')"
      using G by (auto simp: Get_def split: prod.splits sum.splits if_splits)
    have "typeCache s' typeID = None"
    proof (cases r0)
      case (Inl f0)
      with g get_failure_not_cached[OF un] show ?thesis by blast
    next
      case (Inr iv)
      obtain inst d where iv: "iv = (inst, d)" by (cases iv)
      with G g Inr have "\<not> d" by (auto simp: Get_def split: if_splits)
      with g Inr iv get_Inr_cases[of m E c typeID s inst d s'] reg show ?thesis by simp
    qed
    moreover from get_ext[OF g] have "typeCache s \<subseteq>\<^sub>m typeCache s'" by (simp add: ext_def)
    ultimately show "typeCache s' typeID = None \<and> typeCache s \<subseteq>\<^sub>m typeCache s'" ..
  qed
  with un reg show ?thesis by (simp add: Get_def)
qed

text \<open>The theorem at the ID \<^verbatim>\<open>A\<close>, whose second argument refers to an undefined type.\<close>

theorem C6_witness:
  "typeCache new_state ''A'' = None \<and>
   (\<exists>generator. map_of (TypeRegistry (NewContainer demo_registry Map.empty)) ''A'' = Some generator) \<and>
   Get 2 demo_env (NewContainer demo_registry Map.empty) ''A'' new_state =
     (Inl (Failed (Errorf ''goldi: error while generating type %q: %s''
        [S ''A'', Er (UnknownTypeReferenceError ''missing''
        (''the referenced type '' @ [CHR 0x22] @ ''@%s'' @ [CHR 0x22] @ '' has not been defined'')
        [S ''missing''])])),
      \<lparr>typeCache = [''B'' \<mapsto> VString ''bob''], reflectionCache = [''string'' \<mapsto> TString],
       heap = []\<rparr>) \<and>
   typeCache (snd (Get 2 demo_env (NewContainer demo_registry Map.empty) ''A'' new_state)) ''A'' = None"
proof -
  have a: "typeCache new_state ''A'' = None" by (simp add: new_state_def)
  have b: "map_of (TypeRegistry (NewContainer demo_registry Map.empty)) ''A'' =
     Some (Struct_type \<lparr>structType = Person,
          structFields = [Value TString (VString ''@B''), Value TString (VString ''@missing'')]\<rparr>)"
    by (simp add: NewContainer_def demo_registry_def)
  note inst = C6_generate_error[OF a b, of demo_env 1]
  from inst Generate_A have g: "Get 2 demo_env (NewContainer demo_registry Map.empty) ''A'' new_state =
     (Inl (Failed (Errorf ''goldi: error while generating type %q: %s''
        [S ''A'', Er (UnknownTypeReferenceError ''missing''
        (''the referenced type '' @ [CHR 0x22] @ ''@%s'' @ [CHR 0x22] @ '' has not been defined'')
        [S ''missing''])])),
      \<lparr>typeCache = [''B'' \<mapsto> VString ''bob''], reflectionCache = [''string'' \<mapsto> TString],
       heap = []\<rparr>)"
    by (simp add: numeral_2_eq_2)
  from inst g have "typeCache (snd (Get 2 demo_env (NewContainer demo_registry Map.empty) ''A''
      new_state)) ''A'' = None"
    by (metis snd_conv)
  with a b g show ?thesis by blast
qed

text \<open>
  The claim as stated fails: \<^verbatim>\<open>Get\<close> of \<^verbatim>\<open>A\<close> returns an error, and the cache, empty
  before, holds the instance of \<^verbatim>\<open>B\<close>.
\<close>

theorem C6_counterexample:
  \<open>typeCache new_state ''B'' = None \<and>
   fst (Get 2 demo_env (NewContainer demo_registry Map.empty) ''A'' new_state) =
     Inl (Failed (Errorf ''goldi: error while generating type %q: %s''
        [S ''A'', Er (UnknownTypeReferenceError ''missing''
           ''the referenced type "@%s" has not been defined'' [S ''missing''])])) \<and>
   typeCache (snd (Get 2 demo_env (NewContainer demo_registry Map.empty) ''A'' new_state)) ''B'' =
     Some (VString ''bob'')\<close>
  using Generate_A
  by (simp add: Get_def numeral_2_eq_2 NewContainer_def demo_registry_def new_state_def)

section \<open>The validator terminates\<close>

























section \<open>C8: cycle detection\<close>



end
